theory Spec2Isabelle
  imports Main
begin

section \<open>The Help Scout Docs exporter: data and library functions\<close>

text \<open>
  A shallow embedding of \<^verbatim>\<open>export_help_scout_docs.py\<close>. Python strings are
  modelled as \<open>string\<close> (characters with code points 0 to 255), Python integers as
  \<open>int\<close> or, for counters that only grow from 0 or 1, as \<open>nat\<close>. A decoded JSON
  document is a value of \<open>json\<close>; JSON numbers with a fraction or an exponent are left
  out of the model. An object is an association list; a decoded object has no two
  entries with the same key.
\<close>

datatype json =
    JNull
  | JBool bool
  | JInt int
  | JStr string
  | JArr "json list"
  | JObj "(string \<times> json) list"

text \<open>The exceptions that can leave a function of the program.\<close>

datatype exc =
    HTTPError int string
  | TransportError string
  | UnicodeEncodeError
  | KeyError string
  | TypeError
  | ValueError
  | FileExistsError string
  | PlainException
  | SystemExit int

text \<open>
  \<open>HTTPError code msg\<close> is \<^verbatim>\<open>urllib.error.HTTPError\<close>; \<open>TransportError\<close> stands for
  every other exception of \<^verbatim>\<open>urlopen\<close>, \<^verbatim>\<open>response.read().decode()\<close> and
  \<^verbatim>\<open>json.loads\<close> (a \<^verbatim>\<open>URLError\<close>, a body that is not JSON), none of which is an
  \<^verbatim>\<open>HTTPError\<close>; \<open>PlainException\<close> is the bare \<^verbatim>\<open>raise Exception\<close>.
\<close>

subsection \<open>Decimal and hexadecimal digits\<close>

definition digit_char :: "nat \<Rightarrow> char" where
  "digit_char d = ''0123456789'' ! d"

fun str_nat :: "nat \<Rightarrow> string" where
  "str_nat n = (if n < 10 then [digit_char n] else str_nat (n div 10) @ [digit_char (n mod 10)])"

declare str_nat.simps [simp del]

definition str_int :: "int \<Rightarrow> string" where
  "str_int i = (if i < 0 then CHR ''-'' # str_nat (nat (- i)) else str_nat (nat i))"

definition hex_lower :: "nat \<Rightarrow> char" where
  "hex_lower d = ''0123456789abcdef'' ! d"

definition hex_upper :: "nat \<Rightarrow> char" where
  "hex_upper d = ''0123456789ABCDEF'' ! d"

definition code_point :: "char \<Rightarrow> nat" where
  "code_point c = of_char c"

fun str_join :: "string \<Rightarrow> string list \<Rightarrow> string" where
  "str_join sep [] = []"
| "str_join sep [x] = x"
| "str_join sep (x # y # ys) = x @ sep @ str_join sep (y # ys)"

subsection \<open>\<^verbatim>\<open>str()\<close> and \<^verbatim>\<open>repr()\<close> of a decoded JSON value\<close>

definition repr_char :: "char \<Rightarrow> char \<Rightarrow> string" where
  "repr_char quote c =
     (let n = code_point c in
      if c = quote \<or> c = CHR 0x5C then [CHR 0x5C, c]
      else if n = 9 then [CHR 0x5C, CHR ''t'']
      else if n = 10 then [CHR 0x5C, CHR ''n'']
      else if n = 13 then [CHR 0x5C, CHR ''r'']
      else if n < 32 \<or> n = 127 \<or> (128 \<le> n \<and> n \<le> 160) \<or> n = 173
        then [CHR 0x5C, CHR ''x'', hex_lower (n div 16), hex_lower (n mod 16)]
      else [c])"

definition repr_str :: "string \<Rightarrow> string" where
  "repr_str s =
     (let quote = (if CHR 0x27 \<in> set s \<and> CHR 0x22 \<notin> set s then CHR 0x22 else CHR 0x27)
      in [quote] @ concat (map (repr_char quote) s) @ [quote])"

fun py_repr :: "json \<Rightarrow> string"
  and py_repr_items :: "json list \<Rightarrow> string list"
  and py_repr_pairs :: "(string \<times> json) list \<Rightarrow> string list" where
  "py_repr JNull = ''None''"
| "py_repr (JBool b) = (if b then ''True'' else ''False'')"
| "py_repr (JInt i) = str_int i"
| "py_repr (JStr s) = repr_str s"
| "py_repr (JArr xs) = ''['' @ str_join '', '' (py_repr_items xs) @ '']''"
| "py_repr (JObj kvs) = ''{'' @ str_join '', '' (py_repr_pairs kvs) @ ''}''"
| "py_repr_items [] = []"
| "py_repr_items (x # xs) = py_repr x # py_repr_items xs"
| "py_repr_pairs [] = []"
| "py_repr_pairs ((k, v) # kvs) = (repr_str k @ '': '' @ py_repr v) # py_repr_pairs kvs"

text \<open>What an f-string or \<^verbatim>\<open>str()\<close> makes of a value: a string stands for itself.\<close>

definition py_str :: "json \<Rightarrow> string" where
  "py_str v = (case v of JStr s \<Rightarrow> s | _ \<Rightarrow> py_repr v)"

subsection \<open>Subscripting, iterating and \<^verbatim>\<open>int()\<close>\<close>

definition py_getitem :: "json \<Rightarrow> string \<Rightarrow> exc + json" where
  "py_getitem v key =
     (case v of
        JObj kvs \<Rightarrow> (case map_of kvs key of Some x \<Rightarrow> Inr x | None \<Rightarrow> Inl (KeyError key))
      | _ \<Rightarrow> Inl TypeError)"

definition py_iter :: "json \<Rightarrow> exc + json list" where
  "py_iter v =
     (case v of
        JArr xs \<Rightarrow> Inr xs
      | JObj kvs \<Rightarrow> Inr (map (\<lambda>(k, _). JStr k) kvs)
      | JStr s \<Rightarrow> Inr (map (\<lambda>c. JStr [c]) s)
      | _ \<Rightarrow> Inl TypeError)"

definition is_digit :: "char \<Rightarrow> bool" where
  "is_digit c = (48 \<le> code_point c \<and> code_point c \<le> 57)"

definition is_space :: "char \<Rightarrow> bool" where
  "is_space c = (code_point c \<in> {9, 10, 11, 12, 13, 28, 29, 30, 31, 32, 133, 160})"

definition strip :: "string \<Rightarrow> string" where
  "strip s = rev (dropWhile is_space (rev (dropWhile is_space s)))"

text \<open>Digits after the first one: a single underscore may stand between two digits.\<close>

fun more_digits :: "nat \<Rightarrow> string \<Rightarrow> nat option" where
  "more_digits acc [] = Some acc"
| "more_digits acc [c] = (if is_digit c then Some (10 * acc + (code_point c - 48)) else None)"
| "more_digits acc (c # d # cs) =
     (if is_digit c then more_digits (10 * acc + (code_point c - 48)) (d # cs)
      else if c = CHR ''_'' \<and> is_digit d then more_digits (10 * acc + (code_point d - 48)) cs
      else None)"

definition int_of_str :: "string \<Rightarrow> int option" where
  "int_of_str s =
     (let t = strip s;
          neg = (t \<noteq> [] \<and> hd t = CHR ''-'');
          body = (if t \<noteq> [] \<and> (hd t = CHR ''-'' \<or> hd t = CHR ''+'') then tl t else t)
      in case body of
           [] \<Rightarrow> None
         | c # cs \<Rightarrow>
             if is_digit c
             then map_option (\<lambda>n. if neg then - int n else int n) (more_digits (code_point c - 48) cs)
             else None)"

definition py_int :: "json \<Rightarrow> exc + int" where
  "py_int v =
     (case v of
        JInt i \<Rightarrow> Inr i
      | JBool b \<Rightarrow> Inr (if b then 1 else 0)
      | JStr s \<Rightarrow> (case int_of_str s of Some i \<Rightarrow> Inr i | None \<Rightarrow> Inl ValueError)
      | _ \<Rightarrow> Inl TypeError)"

subsection \<open>\<^verbatim>\<open>urllib.parse.urlencode\<close> and \<^verbatim>\<open>base64.b64encode\<close>\<close>

definition utf8 :: "char \<Rightarrow> nat list" where
  "utf8 c = (let n = code_point c in if n < 128 then [n] else [192 + n div 64, 128 + n mod 64])"

definition always_safe :: "char \<Rightarrow> bool" where
  "always_safe c =
     (let n = code_point c in
      (65 \<le> n \<and> n \<le> 90) \<or> (97 \<le> n \<and> n \<le> 122) \<or> (48 \<le> n \<and> n \<le> 57)
      \<or> c = CHR ''_'' \<or> c = CHR ''.'' \<or> c = CHR ''-'' \<or> c = CHR ''~'')"

definition percent :: "nat \<Rightarrow> string" where
  "percent b = [CHR ''%'', hex_upper (b div 16), hex_upper (b mod 16)]"

definition quote_plus :: "string \<Rightarrow> string" where
  "quote_plus s =
     concat (map (\<lambda>c. if c = CHR '' '' then ''+''
                       else if always_safe c then [c]
                       else concat (map percent (utf8 c))) s)"

type_synonym params = "(string \<times> json) list"

definition urlencode :: "params \<Rightarrow> string" where
  "urlencode query =
     str_join ''&'' (map (\<lambda>(k, v). quote_plus k @ ''='' @ quote_plus (py_str v)) query)"

definition encode_ascii :: "string \<Rightarrow> nat list option" where
  "encode_ascii s = (if \<forall>c \<in> set s. code_point c < 128 then Some (map code_point s) else None)"

definition b64_alphabet :: string where
  "b64_alphabet = ''ABCDEFGHIJKLMNOPQRSTUVWXYZabcdefghijklmnopqrstuvwxyz0123456789+/''"

definition b64_char :: "nat \<Rightarrow> char" where
  "b64_char i = b64_alphabet ! i"

fun b64encode :: "nat list \<Rightarrow> string" where
  "b64encode [] = []"
| "b64encode [a] = [b64_char (a div 4), b64_char (a mod 4 * 16), CHR ''='', CHR ''='']"
| "b64encode [a, b] =
     [b64_char (a div 4), b64_char (a mod 4 * 16 + b div 16), b64_char (b mod 16 * 4), CHR ''='']"
| "b64encode (a # b # c # rest) =
     [b64_char (a div 4), b64_char (a mod 4 * 16 + b div 16),
      b64_char (b mod 16 * 4 + c div 64), b64_char (c mod 64)] @ b64encode rest"

section \<open>The world: network, clock, file system, log\<close>

record request =
  req_url :: string
  req_headers :: "(string \<times> string) list"

text \<open>
  What one \<^verbatim>\<open>urlopen\<close> followed by reading and decoding the body comes to: the decoded
  document, an \<^verbatim>\<open>HTTPError\<close>, or another failure. The remote side is a function of the
  number of requests made before and of the request.
\<close>

datatype outcome =
    Reply json
  | HttpFailure int string
  | TransportFailure string

type_synonym server = "nat \<Rightarrow> request \<Rightarrow> outcome"

type_synonym path = string

datatype node = Dir | File string

type_synonym filesystem = "(path \<times> node) list"

datatype effect =
    Requested request
  | Slept nat
  | MadeDir path
  | Wrote path string

datatype level = DEBUG | INFO | WARNING | ERROR

text \<open>
  The state the program runs in: the file system (what is bound first under a path is
  what the path holds), the effects so far in the order they happened, and the messages
  handed to \<^verbatim>\<open>logging\<close>. A \<^verbatim>\<open>pathlib.Path\<close> is the string it was built from; the
  normalisation done by \<^verbatim>\<open>pathlib\<close>, symbolic links, permissions and missing parent
  directories are outside the model.
\<close>

record world =
  fs :: filesystem
  trace :: "effect list"
  logged :: "(level \<times> string) list"

definition REQUEST_DELAY :: nat where
  "REQUEST_DELAY = 1"

definition emit :: "effect \<Rightarrow> world \<Rightarrow> world" where
  "emit e w = w\<lparr>trace := trace w @ [e]\<rparr>"

definition logging :: "level \<Rightarrow> string \<Rightarrow> world \<Rightarrow> world" where
  "logging l msg w = w\<lparr>logged := logged w @ [(l, msg)]\<rparr>"

definition sleep :: "nat \<Rightarrow> world \<Rightarrow> world" where
  "sleep n w = emit (Slept n) w"

fun requests :: "effect list \<Rightarrow> request list" where
  "requests [] = []"
| "requests (Requested r # es) = r # requests es"
| "requests (e # es) = requests es"

definition urlopen :: "server \<Rightarrow> request \<Rightarrow> world \<Rightarrow> outcome \<times> world" where
  "urlopen srv request w = (srv (length (requests (trace w))) request, emit (Requested request) w)"

section \<open>\<^verbatim>\<open>safe_get\<close> and \<^verbatim>\<open>help_scout_get\<close>\<close>

type_synonym auth = "(string \<times> string option) option"

text \<open>
  Lines 36 to 46: the request for a URL, with the \<^verbatim>\<open>Authorization\<close> header when
  \<^verbatim>\<open>auth\<close> is given. The URLs of this program start with \<^verbatim>\<open>https://\<close>, so
  \<^verbatim>\<open>Request(url)\<close> itself does not fail.
\<close>

definition build_request :: "string \<Rightarrow> auth \<Rightarrow> exc + request" where
  "build_request url auth =
     (case auth of
        None \<Rightarrow> Inr \<lparr>req_url = url, req_headers = []\<rparr>
      | Some (username, password) \<Rightarrow>
          (let password = (case password of None \<Rightarrow> [] | Some p \<Rightarrow> p) in
           case encode_ascii (username @ '':'' @ password) of
             None \<Rightarrow> Inl UnicodeEncodeError
           | Some encoded \<Rightarrow>
               Inr \<lparr>req_url = url,
                    req_headers = [(''Authorization'', ''Basic '' @ b64encode encoded)]\<rparr>))"

definition str_http_error :: "int \<Rightarrow> string \<Rightarrow> string" where
  "str_http_error code msg = ''HTTP Error '' @ str_int code @ '': '' @ msg"

text \<open>
  The \<^verbatim>\<open>for attempt in range(retries)\<close> loop, over the attempts still to make. The
  variable \<^verbatim>\<open>url\<close> is assigned inside the loop, so each attempt starts from the URL
  the attempt before left.
\<close>

fun safe_get_attempts ::
  "server \<Rightarrow> int list \<Rightarrow> string \<Rightarrow> params \<Rightarrow> auth \<Rightarrow> int \<Rightarrow> world \<Rightarrow> (exc + json) \<times> world" where
  "safe_get_attempts srv [] url params auth retries w = (Inl PlainException, w)"
| "safe_get_attempts srv (attempt # rest) url params auth retries w =
     (let url = (if params \<noteq> [] then url @ ''?'' @ urlencode params else url) in
      case build_request url auth of
        Inl e \<Rightarrow> (Inl e, w)
      | Inr request \<Rightarrow>
          (case urlopen srv request w of
             (Reply data, w1) \<Rightarrow> (Inr data, w1)
           | (TransportFailure m, w1) \<Rightarrow> (Inl (TransportError m), w1)
           | (HttpFailure code msg, w1) \<Rightarrow>
               (let w2 = logging ERROR (''Request error: '' @ str_http_error code msg) w1 in
                if attempt < retries - 1
                then safe_get_attempts srv rest url params auth retries (sleep REQUEST_DELAY w2)
                else (Inl (HTTPError code msg), w2))))"

definition py_range :: "int \<Rightarrow> int list" where
  "py_range n = map int [0..<nat n]"

definition safe_get ::
  "server \<Rightarrow> string \<Rightarrow> params \<Rightarrow> auth \<Rightarrow> int \<Rightarrow> world \<Rightarrow> (exc + json) \<times> world" where
  "safe_get srv url params auth retries w =
     safe_get_attempts srv (py_range retries) url params auth retries w"

definition help_scout_get ::
  "server \<Rightarrow> string \<Rightarrow> params \<Rightarrow> string option \<Rightarrow> world \<Rightarrow> (exc + json) \<times> world" where
  "help_scout_get srv url params token w =
     (let auth = (case token of
                    None \<Rightarrow> None
                  | Some t \<Rightarrow> if t \<noteq> [] then Some (t, Some ''x'') else None)
      in safe_get srv url params auth 2 w)"

section \<open>Writing the articles\<close>

subsection \<open>\<^verbatim>\<open>json.dump(data, f, indent=2)\<close>\<close>

definition json_escape :: "char \<Rightarrow> string" where
  "json_escape c =
     (let n = code_point c in
      if c = CHR 0x22 then [CHR 0x5C, CHR 0x22]
      else if c = CHR 0x5C then [CHR 0x5C, CHR 0x5C]
      else if n = 8 then [CHR 0x5C, CHR ''b'']
      else if n = 12 then [CHR 0x5C, CHR ''f'']
      else if n = 10 then [CHR 0x5C, CHR ''n'']
      else if n = 13 then [CHR 0x5C, CHR ''r'']
      else if n = 9 then [CHR 0x5C, CHR ''t'']
      else if n < 32 \<or> 126 < n
        then [CHR 0x5C, CHR ''u'', CHR ''0'', CHR ''0'', hex_lower (n div 16), hex_lower (n mod 16)]
      else [c])"

definition json_str :: "string \<Rightarrow> string" where
  "json_str s = [CHR 0x22] @ concat (map json_escape s) @ [CHR 0x22]"

definition newline_indent :: "nat \<Rightarrow> nat \<Rightarrow> string" where
  "newline_indent indent lvl = CHR 0x0A # replicate (indent * lvl) CHR '' ''"

fun json_dumps :: "nat \<Rightarrow> nat \<Rightarrow> json \<Rightarrow> string"
  and json_dumps_items :: "nat \<Rightarrow> nat \<Rightarrow> json list \<Rightarrow> string list"
  and json_dumps_pairs :: "nat \<Rightarrow> nat \<Rightarrow> (string \<times> json) list \<Rightarrow> string list" where
  "json_dumps indent lvl JNull = ''null''"
| "json_dumps indent lvl (JBool b) = (if b then ''true'' else ''false'')"
| "json_dumps indent lvl (JInt i) = str_int i"
| "json_dumps indent lvl (JStr s) = json_str s"
| "json_dumps indent lvl (JArr xs) =
     (if xs = [] then ''[]''
      else ''['' @ newline_indent indent (Suc lvl)
           @ str_join ('','' @ newline_indent indent (Suc lvl)) (json_dumps_items indent (Suc lvl) xs)
           @ newline_indent indent lvl @ '']'')"
| "json_dumps indent lvl (JObj kvs) =
     (if kvs = [] then ''{}''
      else ''{'' @ newline_indent indent (Suc lvl)
           @ str_join ('','' @ newline_indent indent (Suc lvl)) (json_dumps_pairs indent (Suc lvl) kvs)
           @ newline_indent indent lvl @ ''}'')"
| "json_dumps_items indent lvl [] = []"
| "json_dumps_items indent lvl (x # xs) = json_dumps indent lvl x # json_dumps_items indent lvl xs"
| "json_dumps_pairs indent lvl [] = []"
| "json_dumps_pairs indent lvl ((k, v) # kvs) =
     (json_str k @ '': '' @ json_dumps indent lvl v) # json_dumps_pairs indent lvl kvs"

subsection \<open>The file system\<close>

definition path_exists :: "filesystem \<Rightarrow> path \<Rightarrow> bool" where
  "path_exists files p = (map_of files p \<noteq> None)"

text \<open>\<^verbatim>\<open>directory_path / name\<close>: an absolute name replaces the directory.\<close>

definition joinpath :: "path \<Rightarrow> string \<Rightarrow> path" where
  "joinpath d name = (if name \<noteq> [] \<and> hd name = CHR ''/'' then name else d @ ''/'' @ name)"

definition mkdir :: "path \<Rightarrow> world \<Rightarrow> (exc + unit) \<times> world" where
  "mkdir p w =
     (if path_exists (fs w) p then (Inl (FileExistsError p), w)
      else (Inr (), emit (MadeDir p) (w\<lparr>fs := (p, Dir) # fs w\<rparr>)))"

definition write_file :: "path \<Rightarrow> string \<Rightarrow> world \<Rightarrow> world" where
  "write_file p content w = emit (Wrote p content) (w\<lparr>fs := (p, File content) # fs w\<rparr>)"

subsection \<open>\<^verbatim>\<open>unique_filename\<close>\<close>

text \<open>
  The \<^verbatim>\<open>while\<close> loop of lines 85 to 87, with its two variables. The file system is
  finite, so the loop ends: the termination proof follows the definitions.
\<close>

function unique_filename_loop ::
  "filesystem \<Rightarrow> path \<Rightarrow> json \<Rightarrow> string \<Rightarrow> string \<Rightarrow> nat \<Rightarrow> path" where
  "unique_filename_loop files directory_path base_filename extension suffix counter =
     (if path_exists files (joinpath directory_path (py_str base_filename @ suffix @ extension))
      then unique_filename_loop files directory_path base_filename extension
             (''-'' @ str_nat counter) (counter + 1)
      else joinpath directory_path (py_str base_filename @ suffix @ extension))"
  by pat_completeness auto

definition unique_filename :: "filesystem \<Rightarrow> path \<Rightarrow> json \<Rightarrow> string \<Rightarrow> path" where
  "unique_filename files directory_path base_filename extension =
     unique_filename_loop files directory_path base_filename extension [] 1"

subsection \<open>\<^verbatim>\<open>fetch_articles\<close>\<close>

text \<open>The \<^verbatim>\<open>for i, article_id in enumerate(article_ids)\<close> loop of lines 109 to 118.\<close>

fun fetch_articles_loop ::
  "server \<Rightarrow> json list \<Rightarrow> nat \<Rightarrow> nat \<Rightarrow> path \<Rightarrow> string option \<Rightarrow> world \<Rightarrow> (exc + unit) \<times> world" where
  "fetch_articles_loop srv [] i len_ids directory_path token w = (Inr (), w)"
| "fetch_articles_loop srv (article_id # rest) i len_ids directory_path token w =
     (let w1 = logging INFO (''Getting article '' @ py_str article_id @ '' ('' @ str_nat (i + 1)
                              @ ''/'' @ str_nat len_ids @ '')'') w;
          w2 = sleep REQUEST_DELAY w1;
          url = ''https://docsapi.helpscout.net/v1/articles/'' @ py_str article_id
      in case help_scout_get srv url [] token w2 of
           (Inl e, w3) \<Rightarrow> (Inl e, w3)
         | (Inr data, w3) \<Rightarrow>
             (case py_getitem data ''article'' of
                Inl e \<Rightarrow> (Inl e, w3)
              | Inr article \<Rightarrow>
                  (case py_getitem article ''slug'' of
                     Inl e \<Rightarrow> (Inl e, w3)
                   | Inr slug \<Rightarrow>
                       (let article_path = unique_filename (fs w3) directory_path slug ''.json'';
                            w4 = logging DEBUG (''Saving article to '' @ article_path) w3;
                            w5 = write_file article_path (json_dumps 2 0 data) w4
                        in fetch_articles_loop srv rest (i + 1) len_ids directory_path token w5))))"

definition fetch_articles ::
  "server \<Rightarrow> json list \<Rightarrow> path \<Rightarrow> string option \<Rightarrow> world \<Rightarrow> (exc + json list) \<times> world" where
  "fetch_articles srv article_ids directory_path token w =
     (let articles = [];
          w1 = logging DEBUG (''Creating directory '' @ directory_path) w
      in case mkdir directory_path w1 of
           (Inl e, w2) \<Rightarrow>
             (case e of
                FileExistsError p \<Rightarrow>
                  (Inl (SystemExit 1),
                   logging ERROR (''Directory '' @ directory_path @ '' already exists'') w2)
              | _ \<Rightarrow> (Inl e, w2))
         | (Inr u, w2) \<Rightarrow>
             (case fetch_articles_loop srv article_ids 0 (length article_ids) directory_path token w2 of
                (Inl e, w3) \<Rightarrow> (Inl e, w3)
              | (Inr u, w3) \<Rightarrow> (Inr articles, w3)))"

section \<open>Listing collections and articles\<close>

text \<open>
  Lines 130 to 135: what the loop body reads from a response, in the order the code
  reads it. Any subscript, \<^verbatim>\<open>int()\<close> or iteration that fails raises.
\<close>

definition read_page :: "json \<Rightarrow> string \<Rightarrow> exc + (int \<times> int \<times> json list)" where
  "read_page data entity_name =
     (case py_getitem data entity_name of
        Inl e \<Rightarrow> Inl e
      | Inr listing \<Rightarrow>
          (case py_getitem listing ''page'' of
             Inl e \<Rightarrow> Inl e
           | Inr p \<Rightarrow>
               (case py_int p of
                  Inl e \<Rightarrow> Inl e
                | Inr current_page \<Rightarrow>
                    (case py_getitem listing ''pages'' of
                       Inl e \<Rightarrow> Inl e
                     | Inr ps \<Rightarrow>
                         (case py_int ps of
                            Inl e \<Rightarrow> Inl e
                          | Inr total_pages \<Rightarrow>
                              (case py_getitem listing ''items'' of
                                 Inl e \<Rightarrow> Inl e
                               | Inr its \<Rightarrow>
                                   (case py_iter its of
                                      Inl e \<Rightarrow> Inl e
                                    | Inr items \<Rightarrow> Inr (current_page, total_pages, items))))))))"

text \<open>
  The \<^verbatim>\<open>while\<close> loop of \<^verbatim>\<open>get_paged_help_scout_entities\<close>. \<^verbatim>\<open>current_page\<close> and
  \<^verbatim>\<open>total_pages\<close> are \<^verbatim>\<open>None\<close> together before the first response and are assigned
  together, so the model keeps them as one optional pair. The loop need not end: not
  returning is the value \<open>None\<close>.
\<close>

partial_function (option) get_paged_loop ::
  "server \<Rightarrow> string option \<Rightarrow> string \<Rightarrow> string \<Rightarrow> (int \<times> int) option \<Rightarrow> int \<Rightarrow> json list \<Rightarrow> world
   \<Rightarrow> ((exc + json list) \<times> world) option" where
  "get_paged_loop srv token url entity_name pages next_page entities w =
     (if (case pages of None \<Rightarrow> True | Some (current_page, total_pages) \<Rightarrow> current_page < total_pages)
      then
        (case help_scout_get srv url [(''page'', JInt next_page)] token
                (logging INFO (''Getting page '' @ str_int next_page) w) of
           (Inl e, w1) \<Rightarrow> Some (Inl e, w1)
         | (Inr data, w1) \<Rightarrow>
             (case read_page data entity_name of
                Inl e \<Rightarrow> Some (Inl e, w1)
              | Inr (current_page, total_pages, items) \<Rightarrow>
                  get_paged_loop srv token url entity_name (Some (current_page, total_pages))
                    (current_page + 1) (entities @ items) (sleep REQUEST_DELAY w1)))
      else Some (Inr entities, w))"

definition get_paged_help_scout_entities ::
  "server \<Rightarrow> string option \<Rightarrow> string \<Rightarrow> string \<Rightarrow> world \<Rightarrow> ((exc + json list) \<times> world) option" where
  "get_paged_help_scout_entities srv token url entity_name w =
     get_paged_loop srv token url entity_name None 1 [] w"

text \<open>\<^verbatim>\<open>[article["id"] for article in articles]\<close>\<close>

fun ids_of :: "json list \<Rightarrow> exc + json list" where
  "ids_of [] = Inr []"
| "ids_of (article # articles) =
     (case py_getitem article ''id'' of
        Inl e \<Rightarrow> Inl e
      | Inr i \<Rightarrow> (case ids_of articles of Inl e \<Rightarrow> Inl e | Inr is \<Rightarrow> Inr (i # is)))"

definition get_article_ids ::
  "server \<Rightarrow> string option \<Rightarrow> string \<Rightarrow> world \<Rightarrow> ((exc + json list) \<times> world) option" where
  "get_article_ids srv token collection_id w =
     (case get_paged_help_scout_entities srv token
             (''https://docsapi.helpscout.net/v1/collections/'' @ collection_id @ ''/articles'')
             ''articles''
             (logging INFO (''Getting article IDs for collection '' @ collection_id) w) of
        None \<Rightarrow> None
      | Some (Inl e, w1) \<Rightarrow> Some (Inl e, w1)
      | Some (Inr articles, w1) \<Rightarrow> Some (ids_of articles, w1))"

definition get_collections ::
  "server \<Rightarrow> string option \<Rightarrow> world \<Rightarrow> ((exc + json list) \<times> world) option" where
  "get_collections srv token w =
     get_paged_help_scout_entities srv token ''https://docsapi.helpscout.net/v1/collections''
       ''collections'' (logging INFO ''Getting collections'' w)"

section \<open>The orchestrator\<close>

definition export_help_scout_docs ::
  "server \<Rightarrow> string option \<Rightarrow> string \<Rightarrow> path \<Rightarrow> world \<Rightarrow> ((exc + unit) \<times> world) option" where
  "export_help_scout_docs srv token collection_id directory_path w =
     (case get_article_ids srv token collection_id
             (logging INFO ''Starting Help Scout Docs export'' w) of
        None \<Rightarrow> None
      | Some (Inl e, w1) \<Rightarrow> Some (Inl e, w1)
      | Some (Inr article_ids, w1) \<Rightarrow>
          (case fetch_articles srv article_ids directory_path token
                  (logging INFO (''Found '' @ str_nat (length article_ids) @ '' article IDs'') w1) of
             (Inl e, w2) \<Rightarrow> Some (Inl e, w2)
           | (Inr articles, w2) \<Rightarrow>
               Some (Inr (),
                     logging INFO (''Saved all '' @ str_nat (length articles) @ '' articles into ''
                                   @ directory_path) w2)))"

text \<open>
  \<^verbatim>\<open>main\<close> from the parsed arguments on: \<open>env_token\<close> is \<^verbatim>\<open>os.getenv("HELPSCOUTAUTH")\<close>
  and \<open>now\<close> is \<^verbatim>\<open>datetime.now().isoformat()\<close>. \<^verbatim>\<open>parser.error\<close> leaves with status 2.
\<close>

record args =
  arg_token :: "string option"
  arg_collection :: "string option"
  arg_output_dir :: "string option"

fun log_collections :: "json list \<Rightarrow> world \<Rightarrow> (exc + unit) \<times> world" where
  "log_collections [] w = (Inr (), w)"
| "log_collections (collection # collections) w =
     (case py_getitem collection ''id'' of
        Inl e \<Rightarrow> (Inl e, w)
      | Inr i \<Rightarrow>
          log_collections collections
            (logging INFO (py_str i @ '': '' @ json_dumps 2 0 collection) w))"

definition main ::
  "server \<Rightarrow> args \<Rightarrow> string option \<Rightarrow> string \<Rightarrow> world \<Rightarrow> ((exc + unit) \<times> world) option" where
  "main srv a env_token now w =
     (let token = (case arg_token a of
                     None \<Rightarrow> env_token
                   | Some t \<Rightarrow> if t \<noteq> [] then Some t else env_token)
      in if token = None then Some (Inl (SystemExit 2), w)
         else
           (case arg_collection a of
              None \<Rightarrow>
                (case get_collections srv token
                        (logging INFO ''Fetching collection information''
                           (logging WARNING ''No collection specified'' w)) of
                   None \<Rightarrow> None
                 | Some (Inl e, w1) \<Rightarrow> Some (Inl e, w1)
                 | Some (Inr collections, w1) \<Rightarrow>
                     if collections = [] then Some (Inl (SystemExit 2), w1)
                     else
                       (case log_collections collections (logging INFO ''Found collections:'' w1) of
                          (Inl e, w2) \<Rightarrow> Some (Inl e, w2)
                        | (Inr u, w2) \<Rightarrow>
                            Some (Inl (SystemExit 1),
                                  logging INFO ''Please specify a collection ID with --collection'' w2)))
            | Some collection \<Rightarrow>
                (let directory_name = ''help-scout-export-'' @ now;
                     directory_path = (case arg_output_dir a of None \<Rightarrow> directory_name | Some d \<Rightarrow> d);
                     w1 = (case arg_output_dir a of
                             None \<Rightarrow> logging DEBUG (''No output directory specified, defaulting to ''
                                                      @ directory_name) w
                           | Some d \<Rightarrow> w)
                 in if path_exists (fs w1) directory_path then Some (Inl (SystemExit 2), w1)
                    else export_help_scout_docs srv token collection directory_path w1)))"

text \<open>The status the process ends with: an exception nobody catches ends it with 1.\<close>

definition exit_status :: "exc + unit \<Rightarrow> int" where
  "exit_status r = (case r of Inr u \<Rightarrow> 0 | Inl (SystemExit n) \<Rightarrow> n | Inl e \<Rightarrow> 1)"

section \<open>Vocabulary of the claims and test fixtures\<close>

text \<open>
  Nothing below is part of the program: these are the notions the theorems are stated
  with, and the remote sides and worlds the witnesses run the program on.
\<close>

subsection \<open>For the file-name loop\<close>

text \<open>The name tried when the counter was \<open>k\<close>: \<^verbatim>\<open><base>-<k><extension>\<close>; the value of a
  decimal digit.\<close>

definition numbered :: "path \<Rightarrow> json \<Rightarrow> string \<Rightarrow> nat \<Rightarrow> path" where
  "numbered d b ext k = joinpath d (py_str b @ ''-'' @ str_nat k @ ext)"

definition digit_val :: "char \<Rightarrow> nat" where
  "digit_val c = code_point c - 48"

text \<open>The names claim C5 speaks of: \<open>candidate d b ext 0\<close> has no suffix,
  \<open>candidate d b ext k\<close> the suffix \<^verbatim>\<open>-k\<close>.\<close>

definition suffix_of :: "nat \<Rightarrow> string" where
  "suffix_of k = (if k = 0 then [] else ''-'' @ str_nat k)"

definition candidate :: "path \<Rightarrow> json \<Rightarrow> string \<Rightarrow> nat \<Rightarrow> path" where
  "candidate d b ext k = joinpath d (py_str b @ suffix_of k @ ext)"

subsection \<open>For the retry loop\<close>

text \<open>
  What one pass of line 34 appends to the URL; the URL and the request of attempt
  \<open>k\<close> (counted from 0) when \<open>r0\<close> is the request for the URL as passed in; the effects
  of \<open>n\<close> attempts, a sleep between two consecutive ones; the requests made between two
  worlds; the exceptions that can leave from inside the loop.
\<close>

definition query_suffix :: "params \<Rightarrow> string" where
  "query_suffix params = (if params \<noteq> [] then ''?'' @ urlencode params else [])"

definition attempt_url :: "string \<Rightarrow> params \<Rightarrow> nat \<Rightarrow> string" where
  "attempt_url url params k = url @ concat (replicate (Suc k) (query_suffix params))"

definition retry_trace :: "(nat \<Rightarrow> request) \<Rightarrow> nat \<Rightarrow> effect list" where
  "retry_trace req n =
     concat (map (\<lambda>i. [Requested (req i), Slept REQUEST_DELAY]) [0..<n - 1]) @ [Requested (req (n - 1))]"

definition attempt_request :: "request \<Rightarrow> string \<Rightarrow> params \<Rightarrow> nat \<Rightarrow> request" where
  "attempt_request r0 url params k = r0\<lparr>req_url := attempt_url url params k\<rparr>"

definition new_requests :: "world \<Rightarrow> world \<Rightarrow> request list" where
  "new_requests w w' = drop (length (requests (trace w))) (requests (trace w'))"

definition loop_exc :: "exc \<Rightarrow> bool" where
  "loop_exc e = (case e of HTTPError c m \<Rightarrow> True | TransportError m \<Rightarrow> True
                 | UnicodeEncodeError \<Rightarrow> True | _ \<Rightarrow> False)"

text \<open>The empty world, and three remote sides: one that fails the first request only, one
  that fails every request with an HTTP error, one that cannot be reached.\<close>

definition world0 :: world where
  "world0 = \<lparr>fs = [], trace = [], logged = []\<rparr>"

definition flaky :: server where
  "flaky n r = (if n = 0 then HttpFailure 503 ''Service Unavailable''
                else Reply (JObj [(''ok'', JBool True)]))"

definition down :: server where
  "down n r = HttpFailure 503 ''Service Unavailable''"

definition unreachable :: server where
  "unreachable n r = TransportFailure ''timed out''"

subsection \<open>For the pagination\<close>

text \<open>
  The \<^verbatim>\<open>auth\<close> that \<^verbatim>\<open>help_scout_get\<close> passes on for a token; the request and the response
  for page \<open>k\<close> of \<open>p\<close> in their plainest form; a remote side \<open>serves\<close> the pages \<open>pgs\<close>
  when it answers the request for each page with a document in which the code reads
  that page's number, the number of pages and that page's items, whatever else the
  document holds and in whatever order (an endpoint without pages answers page 1 with
  no items).
\<close>

definition token_auth :: "string option \<Rightarrow> auth" where
  "token_auth token = (case token of None \<Rightarrow> None | Some t \<Rightarrow> if t \<noteq> [] then Some (t, Some ''x'') else None)"

definition page_request :: "request \<Rightarrow> string \<Rightarrow> int \<Rightarrow> request" where
  "page_request r0 url k = r0\<lparr>req_url := url @ ''?page='' @ str_int k\<rparr>"

definition page_reply :: "string \<Rightarrow> int \<Rightarrow> int \<Rightarrow> json list \<Rightarrow> outcome" where
  "page_reply entity_name k p items =
     Reply (JObj [(entity_name, JObj [(''page'', JInt k), (''pages'', JInt p), (''items'', JArr items)])])"

definition serves :: "server \<Rightarrow> request \<Rightarrow> string \<Rightarrow> string \<Rightarrow> json list list \<Rightarrow> bool" where
  "serves srv r0 url entity_name pgs =
     (\<forall>n. \<forall>k \<in> {1..max 1 (length pgs)}.
        \<exists>data. srv n (page_request r0 url (int k)) = Reply data
             \<and> read_page data entity_name
                 = Inr (int k, int (length pgs), if k \<le> length pgs then pgs ! (k - 1) else []))"

text \<open>Three endpoints: two pages that share an item (the second with its members in
  another order and a member the code does not read), an empty first page of two, and
  no page at all.\<close>

definition two_pages :: server where
  "two_pages n r =
     (if req_url r = ''https://docsapi.helpscout.net/v1/collections/c1/articles?page=1''
      then page_reply ''articles'' 1 2 [JObj [(''id'', JStr ''a1'')], JObj [(''id'', JStr ''a2'')]]
      else if req_url r = ''https://docsapi.helpscout.net/v1/collections/c1/articles?page=2''
      then Reply (JObj [(''articles'',
                         JObj [(''count'', JInt 4),
                               (''items'', JArr [JObj [(''id'', JStr ''a2'')], JObj [(''id'', JStr ''a3'')]]),
                               (''pages'', JInt 2),
                               (''page'', JInt 2)])])
      else HttpFailure 404 ''Not Found'')"

definition empty_first_page :: server where
  "empty_first_page n r =
     (if req_url r = ''https://docsapi.helpscout.net/v1/collections/c1/articles?page=1''
      then page_reply ''articles'' 1 2 []
      else if req_url r = ''https://docsapi.helpscout.net/v1/collections/c1/articles?page=2''
      then page_reply ''articles'' 2 2 [JObj [(''id'', JStr ''a1'')]]
      else HttpFailure 404 ''Not Found'')"

definition no_pages :: server where
  "no_pages n r = page_reply ''collections'' 1 0 []"

subsection \<open>For the export\<close>

text \<open>
  The directory \<^verbatim>\<open>main\<close> resolves (lines 195 to 200); a world where \<^verbatim>\<open>out\<close> exists and holds
  a file; the files written in a trace, and those written between two worlds; the URL of
  an article; the two halves of the body of the loop of \<^verbatim>\<open>fetch_articles\<close> around the
  request.
\<close>

definition resolved_directory :: "args \<Rightarrow> string \<Rightarrow> path" where
  "resolved_directory a now = (case arg_output_dir a of None \<Rightarrow> ''help-scout-export-'' @ now | Some d \<Rightarrow> d)"

definition occupied :: world where
  "occupied = \<lparr>fs = [(''out/old.json'', File ''{}''), (''out'', Dir)], trace = [], logged = []\<rparr>"

fun writes :: "effect list \<Rightarrow> (path \<times> string) list" where
  "writes [] = []"
| "writes (Wrote p c # es) = (p, c) # writes es"
| "writes (e # es) = writes es"














text \<open>A site with one collection of two articles that share the slug \<^verbatim>\<open>intro\<close>.\<close>

definition envelope :: "string \<Rightarrow> json" where
  "envelope i = JObj [(''article'', JObj [(''slug'', JStr ''intro''), (''id'', JStr i)])]"

definition docs_site :: server where
  "docs_site n r =
     (if req_url r = ''https://docsapi.helpscout.net/v1/collections/c1/articles?page=1''
      then page_reply ''articles'' 1 1 [JObj [(''id'', JStr ''a1'')], JObj [(''id'', JStr ''a2'')]]
      else if req_url r = ''https://docsapi.helpscout.net/v1/articles/a1'' then Reply (envelope ''a1'')
      else if req_url r = ''https://docsapi.helpscout.net/v1/articles/a2'' then Reply (envelope ''a2'')
      else HttpFailure 404 ''Not Found'')"

section \<open>The file-name loop ends\<close>

lemma digit_val_char: "d < 10 \<Longrightarrow> digit_val (digit_char d) = d"
proof -
  assume "d < 10"
  then have "d \<in> {0, 1, 2, 3, 4, 5, 6, 7, 8, 9}" by auto
  then show ?thesis
    by (auto simp: digit_val_def digit_char_def code_point_def)
qed

lemma digits_str_nat: "foldl (\<lambda>a c. 10 * a + digit_val c) 0 (str_nat n) = n"
proof (induction n rule: str_nat.induct)
  case (1 n)
  show ?case
  proof (cases "n < 10")
    case True
    then show ?thesis by (simp add: str_nat.simps [of n] digit_val_char)
  next
    case False
    with 1 have "foldl (\<lambda>a c. 10 * a + digit_val c) 0 (str_nat (n div 10)) = n div 10" by simp
    with False show ?thesis
      by (simp add: str_nat.simps [of n] digit_val_char)
  qed
qed

lemma inj_str_nat: "inj str_nat"
  by (rule inj_on_inverseI [where g = "foldl (\<lambda>a c. 10 * a + digit_val c) 0"]) (rule digits_str_nat)

lemma inj_numbered: "inj (numbered d b ext)"
proof (rule injI)
  fix j k
  assume eq: "numbered d b ext j = numbered d b ext k"
  have same_head: "hd (py_str b @ ''-'' @ str_nat j @ ext) = hd (py_str b @ ''-'' @ str_nat k @ ext)"
    by (cases "py_str b") simp_all
  from eq same_head have "py_str b @ ''-'' @ str_nat j @ ext = py_str b @ ''-'' @ str_nat k @ ext"
    by (auto simp: numbered_def joinpath_def split: if_splits)
  then have "str_nat j = str_nat k" by simp
  then show "j = k" using inj_str_nat by (simp add: inj_eq)
qed

lemma finite_taken: "finite {k. path_exists files (numbered d b ext k)}"
proof -
  have "finite (dom (map_of files))" by (rule finite_dom_map_of)
  then have "finite (numbered d b ext -` dom (map_of files))"
    by (rule finite_vimageI) (rule inj_numbered)
  moreover have "{k. path_exists files (numbered d b ext k)} = numbered d b ext -` dom (map_of files)"
    by (auto simp: path_exists_def)
  ultimately show ?thesis by simp
qed

termination unique_filename_loop
proof (relation "measure (\<lambda>(files, d, b, ext, suffix, c).
          if path_exists files (joinpath d (py_str b @ suffix @ ext))
          then 1 + card {k. c \<le> k \<and> path_exists files (numbered d b ext k)} else 0)")
  show "wf (measure (\<lambda>(files, d, b, ext, suffix, c).
          if path_exists files (joinpath d (py_str b @ suffix @ ext))
          then 1 + card {k. c \<le> k \<and> path_exists files (numbered d b ext k)} else 0))"
    by simp
next
  fix files :: filesystem and d ext suffix :: string and b :: json and c :: nat
  assume taken: "path_exists files (joinpath d (py_str b @ suffix @ ext))"
  let ?A = "{k. c \<le> k \<and> path_exists files (numbered d b ext k)}"
  let ?B = "{k. c + 1 \<le> k \<and> path_exists files (numbered d b ext k)}"
  have finA: "finite ?A" by (rule finite_subset [OF _ finite_taken [of files d b ext]]) auto
  have sub: "?B \<subseteq> ?A" by auto
  show "((files, d, b, ext, ''-'' @ str_nat c, c + 1), (files, d, b, ext, suffix, c))
        \<in> measure (\<lambda>(files, d, b, ext, suffix, c).
          if path_exists files (joinpath d (py_str b @ suffix @ ext))
          then 1 + card {k. c \<le> k \<and> path_exists files (numbered d b ext k)} else 0)"
  proof (cases "path_exists files (numbered d b ext c)")
    case True
    then have "c \<in> ?A" "c \<notin> ?B" by auto
    with sub have "?B \<subset> ?A" by blast
    with finA have "card ?B < card ?A" by (rule psubset_card_mono)
    with taken True show ?thesis by (simp add: numbered_def)
  next
    case False
    with taken show ?thesis by (simp add: numbered_def)
  qed
qed

declare unique_filename_loop.simps [simp del]

section \<open>The retry loop\<close>

lemma requests_append: "requests (es @ es') = requests es @ requests es'"
  by (induction es rule: requests.induct) simp_all

lemma trace_emit: "trace (emit e w) = trace w @ [e]"
  by (simp add: emit_def)

lemma trace_logging: "trace (logging l m w) = trace w"
  by (simp add: logging_def)

lemma trace_sleep: "trace (sleep n w) = trace w @ [Slept n]"
  by (simp add: sleep_def emit_def)

lemma fs_emit: "fs (emit e w) = fs w"
  by (simp add: emit_def)

lemma fs_logging: "fs (logging l m w) = fs w"
  by (simp add: logging_def)

lemma fs_sleep: "fs (sleep n w) = fs w"
  by (simp add: sleep_def emit_def)

lemma build_request_at:
  "build_request u auth = Inr r \<Longrightarrow> build_request u' auth = Inr (r\<lparr>req_url := u'\<rparr>)"
  by (auto simp: build_request_def Let_def split: option.splits prod.splits)


lemma upt_first: "a < n \<Longrightarrow> map int [a..<n] = int a # map int [Suc a..<n]"
  by (simp add: upt_conv_Cons)

lemma attempt_step:
  "safe_get_attempts srv (attempt # rest) url params auth retries w =
     (case build_request (url @ query_suffix params) auth of
        Inl e \<Rightarrow> (Inl e, w)
      | Inr request \<Rightarrow>
          (case srv (length (requests (trace w))) request of
             Reply data \<Rightarrow> (Inr data, emit (Requested request) w)
           | TransportFailure m \<Rightarrow> (Inl (TransportError m), emit (Requested request) w)
           | HttpFailure code msg \<Rightarrow>
               (if attempt < retries - 1
                then safe_get_attempts srv rest (url @ query_suffix params) params auth retries
                       (sleep REQUEST_DELAY
                          (logging ERROR (''Request error: '' @ str_http_error code msg)
                             (emit (Requested request) w)))
                else (Inl (HTTPError code msg),
                      logging ERROR (''Request error: '' @ str_http_error code msg)
                        (emit (Requested request) w)))))"
  by (simp add: query_suffix_def urlopen_def Let_def split: sum.splits outcome.splits)

lemma attempt_reply:
  assumes "a < n" and "build_request (u @ query_suffix params) auth = Inr r"
    and "srv (length (requests (trace w))) r = Reply d"
  shows "safe_get_attempts srv (map int [a..<n]) u params auth retries w = (Inr d, emit (Requested r) w)"
  using assms by (simp add: upt_first attempt_step del: safe_get_attempts.simps)

lemma attempt_transport:
  assumes "a < n" and "build_request (u @ query_suffix params) auth = Inr r"
    and "srv (length (requests (trace w))) r = TransportFailure m"
  shows "safe_get_attempts srv (map int [a..<n]) u params auth retries w
         = (Inl (TransportError m), emit (Requested r) w)"
  using assms by (simp add: upt_first attempt_step del: safe_get_attempts.simps)

lemma attempt_http:
  assumes "a < n" and "build_request (u @ query_suffix params) auth = Inr r"
    and "srv (length (requests (trace w))) r = HttpFailure c m"
  shows "safe_get_attempts srv (map int [a..<n]) u params auth retries w
         = (if int a < retries - 1
            then safe_get_attempts srv (map int [Suc a..<n]) (u @ query_suffix params) params auth retries
                   (sleep REQUEST_DELAY
                      (logging ERROR (''Request error: '' @ str_http_error c m) (emit (Requested r) w)))
            else (Inl (HTTPError c m),
                  logging ERROR (''Request error: '' @ str_http_error c m) (emit (Requested r) w)))"
  using assms by (simp add: upt_first attempt_step del: safe_get_attempts.simps)

lemma attempt_unencodable:
  assumes "a < n" and "build_request (u @ query_suffix params) auth = Inl e"
  shows "safe_get_attempts srv (map int [a..<n]) u params auth retries w = (Inl e, w)"
  using assms by (simp add: upt_first attempt_step del: safe_get_attempts.simps)

text \<open>A run of failed attempts that are not the last one.\<close>

lemma failed_prefix:
  assumes "build_request u0 auth = Inr r0"
    and "a + j < nat retries"
    and "\<forall>i<j. \<exists>c m. srv (length (requests (trace w)) + i)
                        (r0\<lparr>req_url := u @ concat (replicate (Suc i) (query_suffix params))\<rparr>)
                      = HttpFailure c m"
  shows "\<exists>w'. safe_get_attempts srv (map int [a..<nat retries]) u params auth retries w
              = safe_get_attempts srv (map int [a + j..<nat retries])
                  (u @ concat (replicate j (query_suffix params))) params auth retries w'
            \<and> trace w' = trace w @ concat (map (\<lambda>i. [Requested (r0\<lparr>req_url := u @ concat (replicate (Suc i) (query_suffix params))\<rparr>), Slept REQUEST_DELAY]) [0..<j])
            \<and> fs w' = fs w"
  using assms
proof (induction j arbitrary: a u w)
  case 0
  show ?case by (rule exI [where x = w]) simp
next
  case (Suc j)
  let ?q = "query_suffix params"
  let ?r = "r0\<lparr>req_url := u @ ?q\<rparr>"
  from Suc.prems(3) obtain c m where
    first: "srv (length (requests (trace w))) ?r = HttpFailure c m"
    by (auto dest: spec [where x = 0])
  have build: "build_request (u @ ?q) auth = Inr ?r"
    using Suc.prems(1) by (rule build_request_at)
  define w1 where "w1 = sleep REQUEST_DELAY
               (logging ERROR (''Request error: '' @ str_http_error c m) (emit (Requested ?r) w))"
  have lt: "a < nat retries" and more: "int a < retries - 1"
    using Suc.prems(2) by auto
  have step: "safe_get_attempts srv (map int [a..<nat retries]) u params auth retries w
              = safe_get_attempts srv (map int [Suc a..<nat retries]) (u @ ?q) params auth retries w1"
    unfolding w1_def
    using attempt_http [where srv = srv and w = w, OF lt build first] more by simp
  have tr1: "trace w1 = trace w @ [Requested ?r, Slept REQUEST_DELAY]"
    by (simp add: w1_def trace_sleep trace_logging trace_emit)
  have fs1: "fs w1 = fs w"
    by (simp add: w1_def fs_sleep fs_logging fs_emit)
  have len1: "length (requests (trace w1)) = Suc (length (requests (trace w)))"
    by (simp add: tr1 requests_append)
  have rest: "\<forall>i<j. \<exists>c m. srv (length (requests (trace w1)) + i)
                 (r0\<lparr>req_url := (u @ ?q) @ concat (replicate (Suc i) ?q)\<rparr>) = HttpFailure c m"
  proof (intro allI impI)
    fix i assume "i < j"
    then have "Suc i < Suc j" by simp
    with Suc.prems(3) obtain c' m' where
      "srv (length (requests (trace w)) + Suc i)
         (r0\<lparr>req_url := u @ concat (replicate (Suc (Suc i)) ?q)\<rparr>) = HttpFailure c' m'"
      by blast
    then show "\<exists>c m. srv (length (requests (trace w1)) + i)
                 (r0\<lparr>req_url := (u @ ?q) @ concat (replicate (Suc i) ?q)\<rparr>) = HttpFailure c m"
      by (simp add: len1)
  qed
  have "Suc a + j < nat retries" using Suc.prems(2) by simp
  from Suc.IH [OF Suc.prems(1) this rest] obtain w' where
    run: "safe_get_attempts srv (map int [Suc a..<nat retries]) (u @ ?q) params auth retries w1
          = safe_get_attempts srv (map int [Suc a + j..<nat retries])
              ((u @ ?q) @ concat (replicate j ?q)) params auth retries w'"
    and tr: "trace w' = trace w1 @ concat (map (\<lambda>i. [Requested (r0\<lparr>req_url := (u @ ?q) @ concat (replicate (Suc i) ?q)\<rparr>), Slept REQUEST_DELAY]) [0..<j])"
    and fs': "fs w' = fs w1"
    by blast
  have shift: "map (\<lambda>i. [Requested (r0\<lparr>req_url := u @ concat (replicate (Suc i) ?q)\<rparr>), Slept REQUEST_DELAY]) [0..<Suc j]
        = [Requested ?r, Slept REQUEST_DELAY]
          # map (\<lambda>i. [Requested (r0\<lparr>req_url := (u @ ?q) @ concat (replicate (Suc i) ?q)\<rparr>), Slept REQUEST_DELAY]) [0..<j]"
    by (simp add: upt_conv_Cons map_Suc_upt [symmetric] del: upt_Suc)
  show ?case
  proof (intro exI conjI)
    show "safe_get_attempts srv (map int [a..<nat retries]) u params auth retries w
          = safe_get_attempts srv (map int [a + Suc j..<nat retries])
              (u @ concat (replicate (Suc j) ?q)) params auth retries w'"
      using step run by simp
    show "trace w' = trace w @ concat (map (\<lambda>i. [Requested (r0\<lparr>req_url := u @ concat (replicate (Suc i) ?q)\<rparr>), Slept REQUEST_DELAY]) [0..<Suc j])"
      unfolding shift using tr tr1 by simp
    show "fs w' = fs w"
      using fs' fs1 by simp
  qed
qed

lemma build_request_Inl: "build_request u auth = Inl e \<Longrightarrow> e = UnicodeEncodeError"
  by (auto simp: build_request_def Let_def split: option.splits prod.splits)

lemma requests_retry_rounds:
  "requests (concat (map (\<lambda>i. [Requested (f i), Slept d]) xs)) = map f xs"
  by (induction xs) simp_all

text \<open>Whatever the remote side does, the loop only adds to the trace, and every request
  it adds carries the headers that \<open>build_request\<close> gives.\<close>

lemma attempts_trace:
  assumes "build_request u0 auth = Inr r0"
  shows "\<exists>es. trace (snd (safe_get_attempts srv as u params auth retries w)) = trace w @ es
              \<and> (\<forall>r \<in> set (requests es). req_headers r = req_headers r0)
              \<and> fs (snd (safe_get_attempts srv as u params auth retries w)) = fs w"
proof (induction as arbitrary: u w)
  case Nil
  show ?case by simp
next
  case (Cons attempt rest)
  let ?q = "query_suffix params"
  let ?r = "r0\<lparr>req_url := u @ ?q\<rparr>"
  have build: "build_request (u @ ?q) auth = Inr ?r"
    using assms by (rule build_request_at)
  show ?case
  proof (cases "srv (length (requests (trace w))) ?r")
    case (Reply d)
    then show ?thesis
      by (simp add: attempt_step build trace_emit fs_emit del: safe_get_attempts.simps)
  next
    case (TransportFailure m)
    then show ?thesis
      by (simp add: attempt_step build trace_emit fs_emit del: safe_get_attempts.simps)
  next
    case (HttpFailure c m)
    define w2 where "w2 = logging ERROR (''Request error: '' @ str_http_error c m) (emit (Requested ?r) w)"
    have tr2: "trace w2 = trace w @ [Requested ?r]" and fs2: "fs w2 = fs w"
      by (simp_all add: w2_def trace_logging trace_emit fs_logging fs_emit)
    show ?thesis
    proof (cases "attempt < retries - 1")
      case False
      with HttpFailure have "safe_get_attempts srv (attempt # rest) u params auth retries w
            = (Inl (HTTPError c m), w2)"
        by (simp add: attempt_step build w2_def del: safe_get_attempts.simps)
      then show ?thesis by (simp add: tr2 fs2)
    next
      case True
      with HttpFailure have eq: "safe_get_attempts srv (attempt # rest) u params auth retries w
            = safe_get_attempts srv rest (u @ ?q) params auth retries (sleep REQUEST_DELAY w2)"
        by (simp add: attempt_step build w2_def del: safe_get_attempts.simps)
      from Cons.IH [of "u @ ?q" "sleep REQUEST_DELAY w2"] obtain es where
        es: "trace (snd (safe_get_attempts srv rest (u @ ?q) params auth retries (sleep REQUEST_DELAY w2)))
             = trace (sleep REQUEST_DELAY w2) @ es"
        and hs: "\<forall>r \<in> set (requests es). req_headers r = req_headers r0"
        and fs': "fs (snd (safe_get_attempts srv rest (u @ ?q) params auth retries (sleep REQUEST_DELAY w2)))
             = fs (sleep REQUEST_DELAY w2)"
        by blast
      show ?thesis
      proof (intro exI conjI)
        show "trace (snd (safe_get_attempts srv (attempt # rest) u params auth retries w))
              = trace w @ (Requested ?r # Slept REQUEST_DELAY # es)"
          unfolding eq es by (simp add: trace_sleep tr2)
        show "\<forall>r \<in> set (requests (Requested ?r # Slept REQUEST_DELAY # es)). req_headers r = req_headers r0"
          using hs by simp
        show "fs (snd (safe_get_attempts srv (attempt # rest) u params auth retries w)) = fs w"
          unfolding eq fs' by (simp add: fs_sleep fs2)
      qed
    qed
  qed
qed

lemma attempts_first_request:
  assumes "build_request u0 auth = Inr r0" and "a < n"
  shows "\<exists>es. trace (snd (safe_get_attempts srv (map int [a..<n]) u params auth retries w))
              = trace w @ Requested (r0\<lparr>req_url := u @ query_suffix params\<rparr>) # es"
proof -
  let ?q = "query_suffix params"
  let ?r = "r0\<lparr>req_url := u @ ?q\<rparr>"
  have build: "build_request (u @ ?q) auth = Inr ?r"
    using assms(1) by (rule build_request_at)
  show ?thesis
  proof (cases "srv (length (requests (trace w))) ?r")
    case (Reply d)
    from attempt_reply [where srv = srv and w = w, OF assms(2) build this]
    show ?thesis by (simp add: trace_emit)
  next
    case (TransportFailure m)
    from attempt_transport [where srv = srv and w = w, OF assms(2) build this]
    show ?thesis by (simp add: trace_emit)
  next
    case (HttpFailure c m)
    define w2 where "w2 = logging ERROR (''Request error: '' @ str_http_error c m) (emit (Requested ?r) w)"
    have tr2: "trace w2 = trace w @ [Requested ?r]"
      by (simp add: w2_def trace_logging trace_emit)
    note eq = attempt_http [where srv = srv and w = w and retries = retries, OF assms(2) build HttpFailure,
                folded w2_def]
    show ?thesis
    proof (cases "int a < retries - 1")
      case False
      with eq show ?thesis by (simp add: tr2)
    next
      case True
      from attempts_trace [OF assms(1), of srv "map int [Suc a..<n]" "u @ ?q" params retries
             "sleep REQUEST_DELAY w2"]
      obtain es where "trace (snd (safe_get_attempts srv (map int [Suc a..<n]) (u @ ?q) params auth retries
             (sleep REQUEST_DELAY w2))) = trace (sleep REQUEST_DELAY w2) @ es"
        by blast
      with eq True show ?thesis by (simp add: tr2 trace_sleep)
    qed
  qed
qed

lemma attempts_outcome:
  "a < nat retries \<Longrightarrow>
   (case fst (safe_get_attempts srv (map int [a..<nat retries]) u params auth retries w) of
      Inr d \<Rightarrow> True | Inl e \<Rightarrow> loop_exc e)"
proof (induction "nat retries - a" arbitrary: a u w)
  case 0
  then show ?case by simp
next
  case (Suc k)
  let ?q = "query_suffix params"
  show ?case
  proof (cases "build_request (u @ ?q) auth")
    case (Inl e)
    then have "e = UnicodeEncodeError" by (rule build_request_Inl)
    with attempt_unencodable [where srv = srv and w = w, OF Suc.prems Inl]
    show ?thesis by (simp add: loop_exc_def)
  next
    case (Inr r)
    show ?thesis
    proof (cases "srv (length (requests (trace w))) r")
      case (Reply d)
      from attempt_reply [where srv = srv and w = w, OF Suc.prems Inr this]
      show ?thesis by simp
    next
      case (TransportFailure m)
      from attempt_transport [where srv = srv and w = w, OF Suc.prems Inr this]
      show ?thesis by (simp add: loop_exc_def)
    next
      case (HttpFailure c m)
      note eq = attempt_http [where srv = srv and w = w and retries = retries, OF Suc.prems Inr HttpFailure]
      show ?thesis
      proof (cases "int a < retries - 1")
        case False
        with eq show ?thesis by (simp add: loop_exc_def)
      next
        case True
        then have "Suc a < nat retries" by simp
        moreover have "k = nat retries - Suc a" using Suc.hyps(2) by simp
        ultimately have "case fst (safe_get_attempts srv (map int [Suc a..<nat retries]) (u @ ?q) params auth
                 retries (sleep REQUEST_DELAY (logging ERROR (''Request error: '' @ str_http_error c m)
                   (emit (Requested r) w)))) of Inr d \<Rightarrow> True | Inl e \<Rightarrow> loop_exc e"
          by (rule Suc.hyps(1) [rotated])
        with eq True show ?thesis by simp
      qed
    qed
  qed
qed

lemma concat_replicate_snoc: "concat (replicate k q) @ q = q @ concat (replicate k q)"
  by (induction k) simp_all

lemma safe_get_succeeds_at:
  assumes build: "build_request url auth = Inr r0"
    and n: "1 \<le> n" "int n \<le> retries"
    and fails: "\<forall>i<n - 1. \<exists>c m. srv (length (requests (trace w)) + i) (attempt_request r0 url params i)
                  = HttpFailure c m"
    and ok: "srv (length (requests (trace w)) + (n - 1)) (attempt_request r0 url params (n - 1)) = Reply d"
  shows "fst (safe_get srv url params auth retries w) = Inr d
         \<and> trace (snd (safe_get srv url params auth retries w))
           = trace w @ retry_trace (attempt_request r0 url params) n"
proof -
  let ?q = "query_suffix params"
  let ?R = "nat retries"
  have lt: "0 + (n - 1) < ?R" using n by simp
  from fails have fails': "\<forall>i<n - 1. \<exists>c m. srv (length (requests (trace w)) + i)
        (r0\<lparr>req_url := url @ concat (replicate (Suc i) ?q)\<rparr>) = HttpFailure c m"
    by (simp add: attempt_request_def attempt_url_def)
  from failed_prefix [OF build lt fails'] obtain w1 where
    run: "safe_get_attempts srv (map int [0..<?R]) url params auth retries w
          = safe_get_attempts srv (map int [0 + (n - 1)..<?R]) (url @ concat (replicate (n - 1) ?q))
              params auth retries w1"
    and tr: "trace w1 = trace w @ concat (map (\<lambda>i. [Requested (r0\<lparr>req_url := url @ concat (replicate (Suc i) ?q)\<rparr>), Slept REQUEST_DELAY]) [0..<n - 1])"
    by blast
  have len: "length (requests (trace w1)) = length (requests (trace w)) + (n - 1)"
    by (simp add: tr requests_append requests_retry_rounds)
  let ?r = "r0\<lparr>req_url := (url @ concat (replicate (n - 1) ?q)) @ ?q\<rparr>"
  have r_eq: "?r = attempt_request r0 url params (n - 1)"
    by (simp add: attempt_request_def attempt_url_def concat_replicate_snoc)
  have b: "build_request ((url @ concat (replicate (n - 1) ?q)) @ ?q) auth = Inr ?r"
    using build by (rule build_request_at)
  have a: "n - 1 < ?R" using n by simp
  have o: "srv (length (requests (trace w1))) ?r = Reply d"
    using ok by (simp only: len r_eq)
  have last: "safe_get_attempts srv (map int [n - 1..<?R]) (url @ concat (replicate (n - 1) ?q))
              params auth retries w1 = (Inr d, emit (Requested ?r) w1)"
    using attempt_reply [where srv = srv and w = w1, OF a b o] .
  have tr': "trace w1 = trace w @ concat (map (\<lambda>i. [Requested (attempt_request r0 url params i), Slept REQUEST_DELAY]) [0..<n - 1])"
    using tr by (simp add: attempt_request_def attempt_url_def)
  from run have "safe_get_attempts srv (map int [0..<?R]) url params auth retries w
      = safe_get_attempts srv (map int [n - 1..<?R]) (url @ concat (replicate (n - 1) ?q))
          params auth retries w1"
    by (simp only: add_0)
  also note last
  finally have "safe_get srv url params auth retries w
      = (Inr d, emit (Requested (attempt_request r0 url params (n - 1))) w1)"
    by (simp only: safe_get_def py_range_def r_eq)
  then show ?thesis
    by (simp add: trace_emit tr' retry_trace_def)
qed

lemma safe_get_exhausted:
  assumes build: "build_request url auth = Inr r0"
    and n: "1 \<le> retries"
    and fails: "\<forall>i<nat retries - 1. \<exists>c m. srv (length (requests (trace w)) + i)
                  (attempt_request r0 url params i) = HttpFailure c m"
    and final: "srv (length (requests (trace w)) + (nat retries - 1))
                  (attempt_request r0 url params (nat retries - 1)) = HttpFailure c m"
  shows "fst (safe_get srv url params auth retries w) = Inl (HTTPError c m)
         \<and> trace (snd (safe_get srv url params auth retries w))
           = trace w @ retry_trace (attempt_request r0 url params) (nat retries)"
proof -
  let ?q = "query_suffix params"
  let ?R = "nat retries"
  let ?n = "?R - 1"
  have lt: "0 + ?n < ?R" using n by simp
  from fails have fails': "\<forall>i<?n. \<exists>c m. srv (length (requests (trace w)) + i)
        (r0\<lparr>req_url := url @ concat (replicate (Suc i) ?q)\<rparr>) = HttpFailure c m"
    by (simp add: attempt_request_def attempt_url_def)
  from failed_prefix [OF build lt fails'] obtain w1 where
    run: "safe_get_attempts srv (map int [0..<?R]) url params auth retries w
          = safe_get_attempts srv (map int [0 + ?n..<?R]) (url @ concat (replicate ?n ?q))
              params auth retries w1"
    and tr: "trace w1 = trace w @ concat (map (\<lambda>i. [Requested (r0\<lparr>req_url := url @ concat (replicate (Suc i) ?q)\<rparr>), Slept REQUEST_DELAY]) [0..<?n])"
    by blast
  have len: "length (requests (trace w1)) = length (requests (trace w)) + ?n"
    by (simp add: tr requests_append requests_retry_rounds)
  let ?r = "r0\<lparr>req_url := (url @ concat (replicate ?n ?q)) @ ?q\<rparr>"
  have r_eq: "?r = attempt_request r0 url params ?n"
    by (simp add: attempt_request_def attempt_url_def concat_replicate_snoc)
  have b: "build_request ((url @ concat (replicate ?n ?q)) @ ?q) auth = Inr ?r"
    using build by (rule build_request_at)
  have a: "?n < ?R" using n by simp
  have o: "srv (length (requests (trace w1))) ?r = HttpFailure c m"
    using final by (simp only: len r_eq)
  define w2 where "w2 = logging ERROR (''Request error: '' @ str_http_error c m) (emit (Requested ?r) w1)"
  have tr2: "trace w2 = trace w1 @ [Requested ?r]"
    by (simp add: w2_def trace_logging trace_emit)
  have nomore: "\<not> int ?n < retries - 1" using n by simp
  have last: "safe_get_attempts srv (map int [?n..<?R]) (url @ concat (replicate ?n ?q))
              params auth retries w1 = (Inl (HTTPError c m), w2)"
    using attempt_http [where srv = srv and w = w1 and retries = retries, OF a b o, folded w2_def] nomore
    by simp
  have tr': "trace w1 = trace w @ concat (map (\<lambda>i. [Requested (attempt_request r0 url params i), Slept REQUEST_DELAY]) [0..<?n])"
    using tr by (simp add: attempt_request_def attempt_url_def)
  have tr2': "trace w2 = trace w1 @ [Requested (attempt_request r0 url params ?n)]"
    using tr2 by (simp only: r_eq)
  from run have "safe_get_attempts srv (map int [0..<?R]) url params auth retries w
      = safe_get_attempts srv (map int [?n..<?R]) (url @ concat (replicate ?n ?q))
          params auth retries w1"
    by (simp only: add_0)
  also note last
  finally have "safe_get srv url params auth retries w = (Inl (HTTPError c m), w2)"
    by (simp only: safe_get_def py_range_def)
  then show ?thesis
    by (simp add: tr2' tr' retry_trace_def)
qed

text \<open>
  Claim C3. When the credentials encode, \<^verbatim>\<open>safe_get\<close> with \<open>retries\<close> attempts behaves as
  follows. If attempts 1 to \<open>n - 1\<close> fail with an HTTP error and attempt \<open>n\<close> (at most
  \<open>retries\<close>) succeeds, the decoded document of attempt \<open>n\<close> is returned. If all
  \<open>retries\<close> attempts (at least one) fail with an HTTP error, the HTTP error of the last
  attempt is raised as it is. In both cases the effects are the attempts' requests
  with one sleep of \<open>REQUEST_DELAY\<close> between two consecutive ones (\<open>retry_trace\<close>).
\<close>

theorem safe_get_retry_policy:
  assumes "build_request url auth = Inr r0"
  shows "(1 \<le> n \<and> int n \<le> retries
          \<and> (\<forall>i<n - 1. \<exists>c m. srv (length (requests (trace w)) + i) (attempt_request r0 url params i)
                  = HttpFailure c m)
          \<and> srv (length (requests (trace w)) + (n - 1)) (attempt_request r0 url params (n - 1)) = Reply d
          \<longrightarrow> fst (safe_get srv url params auth retries w) = Inr d
              \<and> trace (snd (safe_get srv url params auth retries w))
                = trace w @ retry_trace (attempt_request r0 url params) n)
       \<and> (1 \<le> retries
          \<and> (\<forall>i<nat retries - 1. \<exists>c m. srv (length (requests (trace w)) + i)
                  (attempt_request r0 url params i) = HttpFailure c m)
          \<and> srv (length (requests (trace w)) + (nat retries - 1))
                  (attempt_request r0 url params (nat retries - 1)) = HttpFailure c' m'
          \<longrightarrow> fst (safe_get srv url params auth retries w) = Inl (HTTPError c' m')
              \<and> trace (snd (safe_get srv url params auth retries w))
                = trace w @ retry_trace (attempt_request r0 url params) (nat retries))"
  using safe_get_succeeds_at [OF assms, of n retries srv w params d]
        safe_get_exhausted [OF assms, of retries srv w params c' m']
  by blast

theorem safe_get_retry_policy_witness:
  "fst (safe_get flaky ''https://docsapi.helpscout.net/v1/collections'' [(''page'', JInt 1)]
          (Some (''tok'', Some ''x'')) 2 world0) = Inr (JObj [(''ok'', JBool True)])
   \<and> trace (snd (safe_get flaky ''https://docsapi.helpscout.net/v1/collections'' [(''page'', JInt 1)]
          (Some (''tok'', Some ''x'')) 2 world0))
     = [Requested \<lparr>req_url = ''https://docsapi.helpscout.net/v1/collections?page=1'',
                    req_headers = [(''Authorization'', ''Basic dG9rOng='')]\<rparr>,
        Slept 1,
        Requested \<lparr>req_url = ''https://docsapi.helpscout.net/v1/collections?page=1?page=1'',
                    req_headers = [(''Authorization'', ''Basic dG9rOng='')]\<rparr>]
   \<and> fst (safe_get down ''https://docsapi.helpscout.net/v1/collections'' [(''page'', JInt 1)]
          (Some (''tok'', Some ''x'')) 2 world0) = Inl (HTTPError 503 ''Service Unavailable'')
   \<and> trace (snd (safe_get down ''https://docsapi.helpscout.net/v1/collections'' [(''page'', JInt 1)]
          (Some (''tok'', Some ''x'')) 2 world0))
     = [Requested \<lparr>req_url = ''https://docsapi.helpscout.net/v1/collections?page=1'',
                    req_headers = [(''Authorization'', ''Basic dG9rOng='')]\<rparr>,
        Slept 1,
        Requested \<lparr>req_url = ''https://docsapi.helpscout.net/v1/collections?page=1?page=1'',
                    req_headers = [(''Authorization'', ''Basic dG9rOng='')]\<rparr>]"
proof -
  let ?url = "''https://docsapi.helpscout.net/v1/collections''"
  let ?r0 = "\<lparr>req_url = ?url, req_headers = [(''Authorization'', ''Basic dG9rOng='')]\<rparr>"
  have b: "build_request ?url (Some (''tok'', Some ''x'')) = Inr ?r0"
    by (simp add: build_request_def encode_ascii_def code_point_def b64_char_def b64_alphabet_def)
  have q: "query_suffix [(''page'', JInt 1)] = ''?page=1''"
    by (simp add: query_suffix_def urlencode_def quote_plus_def always_safe_def code_point_def
          py_str_def str_int_def str_nat.simps digit_char_def)
  have r: "attempt_request ?r0 ?url [(''page'', JInt 1)] 0
             = \<lparr>req_url = ''https://docsapi.helpscout.net/v1/collections?page=1'',
                 req_headers = [(''Authorization'', ''Basic dG9rOng='')]\<rparr>"
          "attempt_request ?r0 ?url [(''page'', JInt 1)] (Suc 0)
             = \<lparr>req_url = ''https://docsapi.helpscout.net/v1/collections?page=1?page=1'',
                 req_headers = [(''Authorization'', ''Basic dG9rOng='')]\<rparr>"
    by (simp_all add: attempt_request_def attempt_url_def q)
  from safe_get_retry_policy [OF b, of 2 2 flaky world0 "[(''page'', JInt 1)]"
         "JObj [(''ok'', JBool True)]" 0 "[]"]
  have one: "fst (safe_get flaky ?url [(''page'', JInt 1)] (Some (''tok'', Some ''x'')) 2 world0)
               = Inr (JObj [(''ok'', JBool True)])
           \<and> trace (snd (safe_get flaky ?url [(''page'', JInt 1)] (Some (''tok'', Some ''x'')) 2 world0))
               = trace world0 @ retry_trace (attempt_request ?r0 ?url [(''page'', JInt 1)]) 2"
    by (simp add: flaky_def world0_def)
  from safe_get_retry_policy [OF b, of 2 2 down world0 "[(''page'', JInt 1)]"
         "JNull" 503 "''Service Unavailable''"]
  have two: "fst (safe_get down ?url [(''page'', JInt 1)] (Some (''tok'', Some ''x'')) 2 world0)
               = Inl (HTTPError 503 ''Service Unavailable'')
           \<and> trace (snd (safe_get down ?url [(''page'', JInt 1)] (Some (''tok'', Some ''x'')) 2 world0))
               = trace world0 @ retry_trace (attempt_request ?r0 ?url [(''page'', JInt 1)]) (nat 2)"
    by (simp add: down_def world0_def)
  have t: "trace world0 @ retry_trace (attempt_request ?r0 ?url [(''page'', JInt 1)]) 2
           = [Requested (attempt_request ?r0 ?url [(''page'', JInt 1)] 0), Slept 1,
              Requested (attempt_request ?r0 ?url [(''page'', JInt 1)] (Suc 0))]"
    by (simp add: retry_trace_def world0_def REQUEST_DELAY_def)
  from one two show ?thesis
    by (simp only: t r nat_numeral)
qed

text \<open>
  Claim C8, as amended. With \<open>retries\<close> at least 1, \<^verbatim>\<open>safe_get\<close> never reaches the
  \<^verbatim>\<open>raise Exception\<close> after the loop: it returns a decoded document, or an exception
  leaves from inside the loop, which is an HTTP error, or an exception the loop does
  not catch (the credentials do not encode, or the transport or the decoding failed).
\<close>

theorem safe_get_raises_inside_loop:
  assumes "1 \<le> retries"
  shows "fst (safe_get srv url params auth retries w) \<noteq> Inl PlainException
         \<and> (case fst (safe_get srv url params auth retries w) of
               Inr d \<Rightarrow> True | Inl e \<Rightarrow> loop_exc e)"
proof -
  from assms have "0 < nat retries" by simp
  then have "case fst (safe_get_attempts srv (map int [0..<nat retries]) url params auth retries w) of
               Inr d \<Rightarrow> True | Inl e \<Rightarrow> loop_exc e"
    by (rule attempts_outcome)
  then show ?thesis
    by (auto simp: safe_get_def py_range_def loop_exc_def split: sum.splits)
qed

theorem safe_get_raises_inside_loop_witness:
  "(1::int) \<le> 2
   \<and> fst (safe_get down ''https://docsapi.helpscout.net/v1/collections'' [] None 2 world0)
       \<noteq> Inl PlainException
   \<and> (case fst (safe_get down ''https://docsapi.helpscout.net/v1/collections'' [] None 2 world0) of
         Inr d \<Rightarrow> True | Inl e \<Rightarrow> loop_exc e)"
  using safe_get_raises_inside_loop [of 2 down "''https://docsapi.helpscout.net/v1/collections''" "[]" None world0]
  by simp

text \<open>
  Claim C8 as stated fails: with two attempts allowed and a remote side that cannot be
  reached, \<^verbatim>\<open>safe_get\<close> neither returns a document nor raises an HTTP error.
\<close>

theorem safe_get_other_exception_counterexample:
  "(1::int) \<le> 2
   \<and> fst (safe_get unreachable ''https://docsapi.helpscout.net/v1/collections'' [] None 2 world0)
       = Inl (TransportError ''timed out'')"
  by (simp add: safe_get_def py_range_def build_request_def urlopen_def unreachable_def
        upt_conv_Cons)

lemma new_requests_append:
  "trace w' = trace w @ es \<Longrightarrow> new_requests w w' = requests es"
  by (simp add: new_requests_def requests_append)

text \<open>
  Claim C10. With a non-empty \<^verbatim>\<open>params\<close>, when the attempts before attempt \<open>k\<close> failed with an
  HTTP error, attempt \<open>k\<close> is made and requests the URL with the encoded parameters
  appended \<open>k\<close> times; so the second attempt does not request the URL of the first.
\<close>

theorem safe_get_query_appended_each_attempt:
  assumes params: "params \<noteq> []"
    and build: "build_request url auth = Inr r0"
    and k: "1 \<le> k" "int k \<le> retries"
    and fails: "\<forall>i<k - 1. \<exists>c m. srv (length (requests (trace w)) + i) (attempt_request r0 url params i)
                  = HttpFailure c m"
  shows "k \<le> length (new_requests w (snd (safe_get srv url params auth retries w)))
       \<and> req_url (new_requests w (snd (safe_get srv url params auth retries w)) ! (k - 1))
           = url @ concat (replicate k (''?'' @ urlencode params))
       \<and> (2 \<le> k \<longrightarrow>
            req_url (new_requests w (snd (safe_get srv url params auth retries w)) ! 1)
            \<noteq> req_url (new_requests w (snd (safe_get srv url params auth retries w)) ! 0))"
proof -
  let ?q = "query_suffix params"
  let ?R = "nat retries"
  let ?req = "attempt_request r0 url params"
  have q: "?q = ''?'' @ urlencode params" using params by (simp add: query_suffix_def)
  have lt: "0 + (k - 1) < ?R" using k by simp
  from fails have fails': "\<forall>i<k - 1. \<exists>c m. srv (length (requests (trace w)) + i)
        (r0\<lparr>req_url := url @ concat (replicate (Suc i) ?q)\<rparr>) = HttpFailure c m"
    by (simp add: attempt_request_def attempt_url_def)
  from failed_prefix [OF build lt fails'] obtain w1 where
    run: "safe_get_attempts srv (map int [0..<?R]) url params auth retries w
          = safe_get_attempts srv (map int [0 + (k - 1)..<?R]) (url @ concat (replicate (k - 1) ?q))
              params auth retries w1"
    and tr: "trace w1 = trace w @ concat (map (\<lambda>i. [Requested (r0\<lparr>req_url := url @ concat (replicate (Suc i) ?q)\<rparr>), Slept REQUEST_DELAY]) [0..<k - 1])"
    by blast
  have tr': "trace w1 = trace w @ concat (map (\<lambda>i. [Requested (?req i), Slept REQUEST_DELAY]) [0..<k - 1])"
    using tr by (simp add: attempt_request_def attempt_url_def)
  have a: "k - 1 < ?R" using k by simp
  from attempts_first_request [OF build a, of srv "url @ concat (replicate (k - 1) ?q)" params retries w1]
  obtain es where
    "trace (snd (safe_get_attempts srv (map int [k - 1..<?R]) (url @ concat (replicate (k - 1) ?q))
         params auth retries w1))
     = trace w1 @ Requested (r0\<lparr>req_url := (url @ concat (replicate (k - 1) ?q)) @ ?q\<rparr>) # es"
    by blast
  moreover have "r0\<lparr>req_url := (url @ concat (replicate (k - 1) ?q)) @ ?q\<rparr> = ?req (k - 1)"
    by (simp add: attempt_request_def attempt_url_def concat_replicate_snoc)
  moreover from run have "safe_get srv url params auth retries w
      = safe_get_attempts srv (map int [k - 1..<?R]) (url @ concat (replicate (k - 1) ?q))
          params auth retries w1"
    by (simp only: add_0 safe_get_def py_range_def)
  ultimately have "trace (snd (safe_get srv url params auth retries w))
      = trace w @ (concat (map (\<lambda>i. [Requested (?req i), Slept REQUEST_DELAY]) [0..<k - 1])
                   @ Requested (?req (k - 1)) # es)"
    by (simp only: tr' append_assoc)
  then have new: "new_requests w (snd (safe_get srv url params auth retries w))
      = map ?req [0..<k - 1] @ ?req (k - 1) # requests es"
    by (simp add: new_requests_append requests_append requests_retry_rounds)
  have len: "k \<le> length (map ?req [0..<k - 1] @ ?req (k - 1) # requests es)"
    using k by simp
  have at: "(map ?req [0..<k - 1] @ ?req (k - 1) # requests es) ! (k - 1) = ?req (k - 1)"
    by (simp add: nth_append)
  have url_at: "req_url (?req (k - 1)) = url @ concat (replicate k (''?'' @ urlencode params))"
    using k(1) by (cases k) (simp_all add: attempt_request_def attempt_url_def q)
  have differ: "req_url ((map ?req [0..<k - 1] @ ?req (k - 1) # requests es) ! 1)
                \<noteq> req_url ((map ?req [0..<k - 1] @ ?req (k - 1) # requests es) ! 0)" if "2 \<le> k"
  proof -
    from that have "(map ?req [0..<k - 1] @ ?req (k - 1) # requests es) ! 0 = ?req 0"
      by (simp add: nth_append)
    moreover have "(map ?req [0..<k - 1] @ ?req (k - 1) # requests es) ! 1 = ?req 1"
    proof (cases "k = 2")
      case True
      then show ?thesis by (simp add: nth_append)
    next
      case False
      with that have "1 < k - 1" by simp
      then show ?thesis by (simp add: nth_append)
    qed
    moreover have "req_url (?req 1) \<noteq> req_url (?req 0)"
      by (simp add: attempt_request_def attempt_url_def q)
    ultimately show ?thesis by simp
  qed
  show ?thesis
    unfolding new using len at url_at differ by simp
qed

theorem safe_get_query_appended_each_attempt_witness:
  "[(''page'', JInt 1)] \<noteq> ([] :: params)
   \<and> 2 \<le> length (new_requests world0 (snd (safe_get flaky ''https://docsapi.helpscout.net/v1/collections''
                      [(''page'', JInt 1)] None 2 world0)))
   \<and> req_url (new_requests world0 (snd (safe_get flaky ''https://docsapi.helpscout.net/v1/collections''
                      [(''page'', JInt 1)] None 2 world0)) ! 1)
       = ''https://docsapi.helpscout.net/v1/collections?page=1?page=1''
   \<and> req_url (new_requests world0 (snd (safe_get flaky ''https://docsapi.helpscout.net/v1/collections''
                      [(''page'', JInt 1)] None 2 world0)) ! 1)
       \<noteq> req_url (new_requests world0 (snd (safe_get flaky ''https://docsapi.helpscout.net/v1/collections''
                      [(''page'', JInt 1)] None 2 world0)) ! 0)"
proof -
  let ?url = "''https://docsapi.helpscout.net/v1/collections''"
  have b: "build_request ?url None = Inr \<lparr>req_url = ?url, req_headers = []\<rparr>"
    by (simp add: build_request_def)
  have p: "[(''page'', JInt 1)] \<noteq> ([] :: params)" by simp
  have k: "1 \<le> (2::nat)" "int 2 \<le> 2" by simp_all
  have f: "\<forall>i<2 - 1. \<exists>c m. flaky (length (requests (trace world0)) + i)
             (attempt_request \<lparr>req_url = ?url, req_headers = []\<rparr> ?url [(''page'', JInt 1)] i)
           = HttpFailure c m"
    by (simp add: flaky_def world0_def)
  have e: "?url @ concat (replicate 2 (''?'' @ urlencode [(''page'', JInt 1)]))
           = ''https://docsapi.helpscout.net/v1/collections?page=1?page=1''"
    by (simp add: numeral_2_eq_2 urlencode_def quote_plus_def always_safe_def code_point_def
          py_str_def str_int_def str_nat.simps digit_char_def)
  from safe_get_query_appended_each_attempt [OF p b k f] show ?thesis
    by (simp only: e) simp
qed




section \<open>Unique file names\<close>

lemma unique_filename_loop_first_free:
  "\<exists>k\<ge>c. unique_filename_loop files d b ext (suffix_of c) (Suc c) = candidate d b ext k
         \<and> \<not> path_exists files (candidate d b ext k)
         \<and> (\<forall>j. c \<le> j \<and> j < k \<longrightarrow> path_exists files (candidate d b ext j))"
proof (induction files d b ext "suffix_of c" "Suc c" arbitrary: c rule: unique_filename_loop.induct)
  case (1 files d b ext)
  show ?case
  proof (cases "path_exists files (candidate d b ext c)")
    case False
    then have "unique_filename_loop files d b ext (suffix_of c) (Suc c) = candidate d b ext c"
      by (subst unique_filename_loop.simps) (simp add: candidate_def)
    with False show ?thesis by auto
  next
    case True
    then have taken: "path_exists files (joinpath d (py_str b @ suffix_of c @ ext))"
      by (simp add: candidate_def)
    have next_suffix: "''-'' @ str_nat (Suc c) = suffix_of (Suc c)"
      by (simp add: suffix_of_def)
    have next_counter: "Suc c + 1 = Suc (Suc c)" by simp
    from "1.hyps" [OF taken next_suffix next_counter] obtain k where
      k: "Suc c \<le> k"
         "unique_filename_loop files d b ext (suffix_of (Suc c)) (Suc (Suc c)) = candidate d b ext k"
         "\<not> path_exists files (candidate d b ext k)"
         "\<forall>j. Suc c \<le> j \<and> j < k \<longrightarrow> path_exists files (candidate d b ext j)"
      by blast
    from taken have "unique_filename_loop files d b ext (suffix_of c) (Suc c)
        = unique_filename_loop files d b ext (''-'' @ str_nat (Suc c)) (Suc c + 1)"
      by (subst unique_filename_loop.simps) simp
    then have "unique_filename_loop files d b ext (suffix_of c) (Suc c)
        = unique_filename_loop files d b ext (suffix_of (Suc c)) (Suc (Suc c))"
      by (simp only: next_suffix next_counter)
    with k(2) have "unique_filename_loop files d b ext (suffix_of c) (Suc c) = candidate d b ext k"
      by simp
    moreover have "\<forall>j. c \<le> j \<and> j < k \<longrightarrow> path_exists files (candidate d b ext j)"
    proof (intro allI impI)
      fix j assume "c \<le> j \<and> j < k"
      then consider "j = c" | "Suc c \<le> j \<and> j < k" by force
      then show "path_exists files (candidate d b ext j)"
        using True k(4) by cases auto
    qed
    moreover have "c \<le> k" using k(1) by simp
    ultimately show ?thesis using k(3) by blast
  qed
qed

lemma unique_filename_candidate:
  "\<exists>k. unique_filename files d b ext = candidate d b ext k
       \<and> \<not> path_exists files (candidate d b ext k)
       \<and> (\<forall>j<k. path_exists files (candidate d b ext j))"
  using unique_filename_loop_first_free [of 0 files d b ext]
  by (auto simp: unique_filename_def suffix_of_def)

text \<open>
  Claim C5. \<^verbatim>\<open>unique_filename\<close> returns the first of the paths \<^verbatim>\<open><base><ext>\<close>,
  \<^verbatim>\<open><base>-1<ext>\<close>, \<^verbatim>\<open><base>-2<ext>\<close>, ... in the directory that does not exist when it is
  called: the path it returns does not exist and every earlier one does. In particular,
  when \<^verbatim>\<open>foo.json\<close> exists and \<^verbatim>\<open>foo-1.json\<close> does not, it returns \<^verbatim>\<open>foo-1.json\<close>; when both
  exist and \<^verbatim>\<open>foo-2.json\<close> does not, it returns \<^verbatim>\<open>foo-2.json\<close>.
\<close>

theorem unique_filename_first_unused:
  "(\<exists>k. unique_filename files d b ext = candidate d b ext k
        \<and> \<not> path_exists files (candidate d b ext k)
        \<and> (\<forall>j<k. path_exists files (candidate d b ext j)))
   \<and> (path_exists files (joinpath d ''foo.json'') \<and> \<not> path_exists files (joinpath d ''foo-1.json'')
        \<longrightarrow> unique_filename files d (JStr ''foo'') ''.json'' = joinpath d ''foo-1.json'')
   \<and> (path_exists files (joinpath d ''foo.json'') \<and> path_exists files (joinpath d ''foo-1.json'')
        \<and> \<not> path_exists files (joinpath d ''foo-2.json'')
        \<longrightarrow> unique_filename files d (JStr ''foo'') ''.json'' = joinpath d ''foo-2.json'')"
proof (intro conjI impI)
  show "\<exists>k. unique_filename files d b ext = candidate d b ext k
        \<and> \<not> path_exists files (candidate d b ext k)
        \<and> (\<forall>j<k. path_exists files (candidate d b ext j))"
    by (rule unique_filename_candidate)
next
  have c0: "candidate d (JStr ''foo'') ''.json'' 0 = joinpath d ''foo.json''"
    and c1: "candidate d (JStr ''foo'') ''.json'' 1 = joinpath d ''foo-1.json''"
    and c2: "candidate d (JStr ''foo'') ''.json'' 2 = joinpath d ''foo-2.json''"
    by (simp_all add: candidate_def suffix_of_def py_str_def str_nat.simps digit_char_def)
  from unique_filename_candidate [of files d "JStr ''foo''" "''.json''"] obtain k where
    k: "unique_filename files d (JStr ''foo'') ''.json'' = candidate d (JStr ''foo'') ''.json'' k"
       "\<not> path_exists files (candidate d (JStr ''foo'') ''.json'' k)"
       "\<forall>j<k. path_exists files (candidate d (JStr ''foo'') ''.json'' j)"
    by blast
  {
    assume a: "path_exists files (joinpath d ''foo.json'') \<and> \<not> path_exists files (joinpath d ''foo-1.json'')"
    have "k \<noteq> 0" using a k(2) c0 by (auto intro: ccontr)
    moreover have "\<not> 1 < k" using a k(3) c1 by auto
    ultimately have "k = 1" by simp
    with k(1) c1 show "unique_filename files d (JStr ''foo'') ''.json'' = joinpath d ''foo-1.json''"
      by simp
  }
  {
    assume a: "path_exists files (joinpath d ''foo.json'') \<and> path_exists files (joinpath d ''foo-1.json'')
        \<and> \<not> path_exists files (joinpath d ''foo-2.json'')"
    have "k \<noteq> 0" using a k(2) c0 by (auto intro: ccontr)
    moreover have "k \<noteq> 1" using a k(2) c1 by (auto intro: ccontr)
    moreover have "\<not> 2 < k" using a k(3) c2 by auto
    ultimately have "k = 2" by simp
    with k(1) c2 show "unique_filename files d (JStr ''foo'') ''.json'' = joinpath d ''foo-2.json''"
      by simp
  }
qed

theorem unique_filename_first_unused_witness:
  "unique_filename [(''out/foo.json'', File [])] ''out'' (JStr ''foo'') ''.json'' = ''out/foo-1.json''
   \<and> unique_filename [(''out/foo-1.json'', File []), (''out/foo.json'', File [])] ''out'' (JStr ''foo'') ''.json''
       = ''out/foo-2.json''
   \<and> unique_filename [(''out'', Dir)] ''out'' (JStr ''foo'') ''.json'' = ''out/foo.json''"
proof -
  have "unique_filename [(''out/foo.json'', File [])] ''out'' (JStr ''foo'') ''.json'' = ''out/foo-1.json''"
    using unique_filename_first_unused [of "[(''out/foo.json'', File [])]" "''out''" "JStr ''foo''" "''.json''"]
    by (simp add: path_exists_def joinpath_def)
  moreover have "unique_filename [(''out/foo-1.json'', File []), (''out/foo.json'', File [])] ''out''
                   (JStr ''foo'') ''.json'' = ''out/foo-2.json''"
    using unique_filename_first_unused [of "[(''out/foo-1.json'', File []), (''out/foo.json'', File [])]"
            "''out''" "JStr ''foo''" "''.json''"]
    by (simp add: path_exists_def joinpath_def)
  moreover have "unique_filename [(''out'', Dir)] ''out'' (JStr ''foo'') ''.json'' = ''out/foo.json''"
  proof -
    from unique_filename_first_unused [of "[(''out'', Dir)]" "''out''" "JStr ''foo''" "''.json''"]
    obtain k where k: "unique_filename [(''out'', Dir)] ''out'' (JStr ''foo'') ''.json''
                         = candidate ''out'' (JStr ''foo'') ''.json'' k"
      "\<forall>j<k. path_exists [(''out'', Dir)] (candidate ''out'' (JStr ''foo'') ''.json'' j)"
      by blast
    have "\<not> path_exists [(''out'', Dir)] (candidate ''out'' (JStr ''foo'') ''.json'' 0)"
      by (simp add: path_exists_def candidate_def suffix_of_def joinpath_def py_str_def)
    with k(2) have "k = 0" by (auto intro: ccontr)
    with k(1) show ?thesis
      by (simp add: candidate_def suffix_of_def joinpath_def py_str_def)
  qed
  ultimately show ?thesis by simp
qed

section \<open>Pagination\<close>

lemma help_scout_get_safe_get:
  "help_scout_get srv url params token w = safe_get srv url params (token_auth token) 2 w"
  by (simp add: help_scout_get_def token_auth_def)

lemma help_scout_get_first_reply:
  assumes "build_request url (token_auth token) = Inr r0"
    and "srv (length (requests (trace w))) (r0\<lparr>req_url := url @ query_suffix params\<rparr>) = Reply d"
  shows "help_scout_get srv url params token w
         = (Inr d, emit (Requested (r0\<lparr>req_url := url @ query_suffix params\<rparr>)) w)"
proof -
  have b: "build_request (url @ query_suffix params) (token_auth token)
           = Inr (r0\<lparr>req_url := url @ query_suffix params\<rparr>)"
    using assms(1) by (rule build_request_at)
  have "0 < (2::nat)" by simp
  from attempt_reply [where srv = srv and w = w and retries = 2, OF this b assms(2)]
  show ?thesis
    by (simp add: help_scout_get_safe_get safe_get_def py_range_def del: safe_get_attempts.simps upt_Suc)
qed

lemma str_nat_digits: "set (str_nat n) \<subseteq> set ''0123456789''"
proof (induction n rule: str_nat.induct)
  case (1 n)
  have d: "digit_char k \<in> set ''0123456789''" if "k < 10" for k
  proof -
    from that have "k \<in> {0, 1, 2, 3, 4, 5, 6, 7, 8, 9}" by auto
    then show ?thesis by (auto simp: digit_char_def)
  qed
  show ?case
  proof (cases "n < 10")
    case True
    then show ?thesis using d [of n] by (simp add: str_nat.simps [of n])
  next
    case False
    with 1 have "set (str_nat (n div 10)) \<subseteq> set ''0123456789''" by simp
    moreover have "digit_char (n mod 10) \<in> set ''0123456789''" by (rule d) simp
    ultimately show ?thesis using False by (simp add: str_nat.simps [of n])
  qed
qed

lemma quote_plus_safe: "\<forall>c \<in> set s. always_safe c \<and> c \<noteq> CHR '' '' \<Longrightarrow> quote_plus s = s"
  by (induction s) (simp_all add: quote_plus_def)

lemma safe_decimal: "c \<in> set ''-0123456789'' \<Longrightarrow> always_safe c \<and> c \<noteq> CHR '' ''"
  by (simp add: always_safe_def code_point_def) (elim disjE; simp)

lemma str_int_chars: "c \<in> set (str_int k) \<Longrightarrow> c \<in> set ''-0123456789''"
proof -
  assume c: "c \<in> set (str_int k)"
  have sub: "set ''0123456789'' \<subseteq> set ''-0123456789''" by simp
  show ?thesis
  proof (cases "k < 0")
    case True
    with c have "c = CHR ''-'' \<or> c \<in> set (str_nat (nat (- k)))" by (simp add: str_int_def)
    then show ?thesis
    proof
      assume "c = CHR ''-''" then show ?thesis by simp
    next
      assume "c \<in> set (str_nat (nat (- k)))"
      then have "c \<in> set ''0123456789''" using str_nat_digits by (rule subsetD [rotated])
      then show ?thesis using sub by (rule subsetD [rotated])
    qed
  next
    case False
    with c have "c \<in> set (str_nat (nat k))" by (simp add: str_int_def)
    then have "c \<in> set ''0123456789''" using str_nat_digits by (rule subsetD [rotated])
    then show ?thesis using sub by (rule subsetD [rotated])
  qed
qed

lemma quote_plus_str_int: "quote_plus (str_int k) = str_int k"
  by (rule quote_plus_safe) (blast dest: str_int_chars safe_decimal)

lemma query_suffix_page: "query_suffix [(''page'', JInt k)] = ''?page='' @ str_int k"
proof -
  have "quote_plus ''page'' = ''page''"
    by (rule quote_plus_safe) (simp add: always_safe_def code_point_def)
  then show ?thesis
    by (simp add: query_suffix_def urlencode_def py_str_def quote_plus_str_int)
qed

text \<open>What the code reads in a listing: the members are looked up by name, so neither
  their order nor further members matter.\<close>

lemma read_page_listing:
  assumes "map_of members entity_name = Some (JObj listing)"
    and "map_of listing ''page'' = Some (JInt k)"
    and "map_of listing ''pages'' = Some (JInt p)"
    and "map_of listing ''items'' = Some (JArr items)"
  shows "read_page (JObj members) entity_name = Inr (k, p, items)"
  using assms by (simp add: read_page_def py_getitem_def py_int_def py_iter_def)

lemma read_page_reply:
  "read_page (JObj [(entity_name, JObj [(''page'', JInt k), (''pages'', JInt p), (''items'', JArr items)])])
     entity_name = Inr (k, p, items)"
  by (rule read_page_listing, simp, simp_all)

lemma paged_step:
  assumes build: "build_request url (token_auth token) = Inr r0"
    and cond: "case st of None \<Rightarrow> True | Some (c, t) \<Rightarrow> c < t"
    and reply: "srv (length (requests (trace w))) (page_request r0 url next_page) = Reply data"
    and rp: "read_page data entity_name = Inr (cp, tp, items)"
  shows "\<exists>w1. get_paged_loop srv token url entity_name st next_page acc w
              = get_paged_loop srv token url entity_name (Some (cp, tp)) (cp + 1) (acc @ items) w1
            \<and> trace w1 = trace w @ [Requested (page_request r0 url next_page), Slept REQUEST_DELAY]
            \<and> fs w1 = fs w"
proof -
  define w0 where "w0 = logging INFO (''Getting page '' @ str_int next_page) w"
  have tr0: "trace w0 = trace w" and fs0: "fs w0 = fs w"
    by (simp_all add: w0_def trace_logging fs_logging)
  have r: "r0\<lparr>req_url := url @ query_suffix [(''page'', JInt next_page)]\<rparr> = page_request r0 url next_page"
    by (simp only: query_suffix_page page_request_def)
  have "srv (length (requests (trace w0))) (r0\<lparr>req_url := url @ query_suffix [(''page'', JInt next_page)]\<rparr>)
        = Reply data"
    using reply by (simp only: r tr0)
  from help_scout_get_first_reply [where srv = srv and w = w0, OF build this]
  have get: "help_scout_get srv url [(''page'', JInt next_page)] token w0
             = (Inr data, emit (Requested (page_request r0 url next_page)) w0)"
    by (simp only: r)
  define w1 where "w1 = sleep REQUEST_DELAY (emit (Requested (page_request r0 url next_page)) w0)"
  have "get_paged_loop srv token url entity_name st next_page acc w
        = get_paged_loop srv token url entity_name (Some (cp, tp)) (cp + 1) (acc @ items) w1"
    by (subst get_paged_loop.simps, fold w0_def) (simp add: cond get rp w1_def)
  moreover have "trace w1 = trace w @ [Requested (page_request r0 url next_page), Slept REQUEST_DELAY]"
    by (simp add: w1_def trace_sleep trace_emit tr0)
  moreover have "fs w1 = fs w"
    by (simp add: w1_def fs_sleep fs_emit fs0)
  ultimately show ?thesis by blast
qed

lemma paged_stop:
  "\<not> c < t \<Longrightarrow> get_paged_loop srv token url entity_name (Some (c, t)) next_page acc w = Some (Inr acc, w)"
  by (subst get_paged_loop.simps) simp

lemma serves_page:
  assumes "serves srv r0 url entity_name pgs" and "1 \<le> k" and "k \<le> max 1 (length pgs)"
  shows "\<exists>data. srv n (page_request r0 url (int k)) = Reply data
              \<and> read_page data entity_name
                  = Inr (int k, int (length pgs), if k \<le> length pgs then pgs ! (k - 1) else [])"
  using assms by (simp add: serves_def)

lemma paged_from:
  assumes build: "build_request url (token_auth token) = Inr r0"
    and serves: "serves srv r0 url entity_name pgs"
    and k: "1 \<le> k" "k \<le> max 1 (length pgs)"
    and cond: "case st of None \<Rightarrow> True | Some (c, t) \<Rightarrow> c < t"
  shows "\<exists>w' es. get_paged_loop srv token url entity_name st (int k) acc w
                  = Some (Inr (acc @ concat (drop (k - 1) pgs)), w')
               \<and> trace w' = trace w @ es
               \<and> requests es = map (\<lambda>i. page_request r0 url (int i)) [k..<Suc (max 1 (length pgs))]
               \<and> fs w' = fs w"
  using k cond
proof (induction "max 1 (length pgs) - k" arbitrary: k st acc w)
  case 0
  let ?P = "length pgs"
  let ?items = "if k \<le> ?P then pgs ! (k - 1) else []"
  from 0 have last: "k = max 1 ?P" by simp
  from serves_page [OF serves "0.prems"(1,2), of "length (requests (trace w))"] obtain data where
    reply: "srv (length (requests (trace w))) (page_request r0 url (int k)) = Reply data"
    and rp: "read_page data entity_name = Inr (int k, int ?P, ?items)"
    by blast
  from paged_step [where srv = srv and w = w and acc = acc, OF build "0.prems"(3) reply rp]
  obtain w1 where
    step: "get_paged_loop srv token url entity_name st (int k) acc w
           = get_paged_loop srv token url entity_name (Some (int k, int ?P)) (int k + 1) (acc @ ?items) w1"
    and tr: "trace w1 = trace w @ [Requested (page_request r0 url (int k)), Slept REQUEST_DELAY]"
    and fs1: "fs w1 = fs w"
    by blast
  have "\<not> int k < int ?P" using last by simp
  then have stop: "get_paged_loop srv token url entity_name (Some (int k, int ?P)) (int k + 1) (acc @ ?items) w1
                   = Some (Inr (acc @ ?items), w1)"
    by (rule paged_stop)
  have items: "concat (drop (k - 1) pgs) = ?items"
  proof (cases "?P = 0")
    case True
    with last show ?thesis by simp
  next
    case False
    with last have kP: "k = ?P" by simp
    with False have "k - 1 < ?P" by simp
    then have "drop (k - 1) pgs = pgs ! (k - 1) # drop (Suc (k - 1)) pgs"
      by (simp add: Cons_nth_drop_Suc)
    with kP False show ?thesis by simp
  qed
  have range: "[k..<Suc (max 1 ?P)] = [k]" using last by simp
  show ?case
  proof (intro exI conjI)
    show "get_paged_loop srv token url entity_name st (int k) acc w
          = Some (Inr (acc @ concat (drop (k - 1) pgs)), w1)"
      using step stop by (simp only: items)
    show "trace w1 = trace w @ [Requested (page_request r0 url (int k)), Slept REQUEST_DELAY]"
      by (rule tr)
    show "requests [Requested (page_request r0 url (int k)), Slept REQUEST_DELAY]
          = map (\<lambda>i. page_request r0 url (int i)) [k..<Suc (max 1 ?P)]"
      by (simp only: range) simp
    show "fs w1 = fs w" by (rule fs1)
  qed
next
  case (Suc n)
  let ?P = "length pgs"
  from Suc.hyps(2) Suc.prems(1) have kP: "k < ?P" and P: "max 1 ?P = ?P" by auto
  let ?items = "if k \<le> ?P then pgs ! (k - 1) else []"
  from serves_page [OF serves Suc.prems(1,2), of "length (requests (trace w))"] obtain data where
    reply: "srv (length (requests (trace w))) (page_request r0 url (int k)) = Reply data"
    and rp: "read_page data entity_name = Inr (int k, int ?P, ?items)"
    by blast
  from paged_step [where srv = srv and w = w and acc = acc, OF build Suc.prems(3) reply rp]
  obtain w1 where
    step: "get_paged_loop srv token url entity_name st (int k) acc w
           = get_paged_loop srv token url entity_name (Some (int k, int ?P)) (int k + 1) (acc @ ?items) w1"
    and tr: "trace w1 = trace w @ [Requested (page_request r0 url (int k)), Slept REQUEST_DELAY]"
    and fs1: "fs w1 = fs w"
    by blast
  have n: "n = max 1 ?P - Suc k" using Suc.hyps(2) by simp
  have k1: "1 \<le> Suc k" "Suc k \<le> max 1 ?P" using kP by simp_all
  have c1: "case Some (int k, int ?P) of None \<Rightarrow> True | Some (c, t) \<Rightarrow> c < t" using kP by simp
  from Suc.hyps(1) [OF n k1 c1, of "acc @ ?items" w1] obtain w' es where
    run: "get_paged_loop srv token url entity_name (Some (int k, int ?P)) (int (Suc k)) (acc @ ?items) w1
          = Some (Inr ((acc @ ?items) @ concat (drop (Suc k - 1) pgs)), w')"
    and tr': "trace w' = trace w1 @ es"
    and rq: "requests es = map (\<lambda>i. page_request r0 url (int i)) [Suc k..<Suc (max 1 ?P)]"
    and fs': "fs w' = fs w1"
    by blast
  have suc: "int k + 1 = int (Suc k)" by simp
  have "k - 1 < ?P" using kP by simp
  then have "drop (k - 1) pgs = pgs ! (k - 1) # drop (Suc (k - 1)) pgs"
    by (simp add: Cons_nth_drop_Suc)
  then have items: "(acc @ ?items) @ concat (drop (Suc k - 1) pgs) = acc @ concat (drop (k - 1) pgs)"
    using kP Suc.prems(1) by simp
  have range: "[k..<Suc (max 1 ?P)] = k # [Suc k..<Suc (max 1 ?P)]"
    using Suc.prems(2) by (simp add: upt_conv_Cons del: upt_Suc)
  show ?case
  proof (intro exI conjI)
    show "get_paged_loop srv token url entity_name st (int k) acc w
          = Some (Inr (acc @ concat (drop (k - 1) pgs)), w')"
      using step run by (simp only: suc items)
    show "trace w' = trace w @ (Requested (page_request r0 url (int k)) # Slept REQUEST_DELAY # es)"
      using tr tr' by simp
    show "requests (Requested (page_request r0 url (int k)) # Slept REQUEST_DELAY # es)
          = map (\<lambda>i. page_request r0 url (int i)) [k..<Suc (max 1 ?P)]"
      by (simp only: range) (simp add: rq)
    show "fs w' = fs w" using fs' fs1 by simp
  qed
qed

lemma paged_all:
  assumes "build_request url (token_auth token) = Inr r0"
    and "serves srv r0 url entity_name pgs"
  shows "\<exists>w'. get_paged_help_scout_entities srv token url entity_name w = Some (Inr (concat pgs), w')
            \<and> length (concat pgs) = sum_list (map length pgs)
            \<and> new_requests w w' = map (\<lambda>k. page_request r0 url (int k)) [1..<Suc (max 1 (length pgs))]"
proof -
  have k: "1 \<le> (1::nat)" "1 \<le> max 1 (length pgs)" by simp_all
  have c: "case None :: (int \<times> int) option of None \<Rightarrow> True | Some (c, t) \<Rightarrow> c < t" by simp
  from paged_from [OF assms k c, of "[]" w] obtain w' es where
    "get_paged_loop srv token url entity_name None (int 1) [] w = Some (Inr ([] @ concat (drop (1 - 1) pgs)), w')"
    and "trace w' = trace w @ es"
    and "requests es = map (\<lambda>i. page_request r0 url (int i)) [1..<Suc (max 1 (length pgs))]"
    by blast
  then have "get_paged_help_scout_entities srv token url entity_name w = Some (Inr (concat pgs), w')
      \<and> new_requests w w' = map (\<lambda>k. page_request r0 url (int k)) [1..<Suc (max 1 (length pgs))]"
    by (simp add: get_paged_help_scout_entities_def new_requests_append)
  then show ?thesis by (auto simp: length_concat)
qed

text \<open>
  Claim C4. Let the remote side answer the request for page \<open>k\<close> of an endpoint with the
  pages \<open>pgs\<close> (\<open>P\<close> of them), for \<open>k\<close> from 1 to \<open>P\<close>, with a document in which the code reads
  the page number \<open>k\<close>, the page count \<open>P\<close> and the items of page \<open>k\<close> (an endpoint without
  pages answers page 1 with no items). Then the fetcher returns the concatenation of the
  pages' items in page order, whose length is the sum of the pages' lengths, nothing
  removed, after requesting each page once in increasing order.
\<close>

theorem get_paged_concatenates_pages:
  assumes "build_request url (token_auth token) = Inr r0"
    and "serves srv r0 url entity_name pgs"
  shows "\<exists>w'. get_paged_help_scout_entities srv token url entity_name w = Some (Inr (concat pgs), w')
            \<and> length (concat pgs) = sum_list (map length pgs)
            \<and> new_requests w w' = map (\<lambda>k. page_request r0 url (int k)) [1..<Suc (max 1 (length pgs))]"
  using assms by (rule paged_all)

lemma str_int_small: "str_int 1 = ''1''" "str_int 2 = ''2''" "str_int (int (Suc 0)) = ''1''"
  by (simp_all add: str_int_def str_nat.simps digit_char_def)

lemma serves_two:
  assumes "\<And>n. \<exists>data. srv n (page_request r0 url 1) = Reply data
                      \<and> read_page data entity_name = Inr (1, 2, p1)"
    and "\<And>n. \<exists>data. srv n (page_request r0 url 2) = Reply data
                      \<and> read_page data entity_name = Inr (2, 2, p2)"
  shows "serves srv r0 url entity_name [p1, p2]"
  unfolding serves_def
proof (intro allI ballI)
  fix n k :: nat
  assume "k \<in> {1..max 1 (length [p1, p2])}"
  then have "k = 1 \<or> k = 2" by auto
  then show "\<exists>data. srv n (page_request r0 url (int k)) = Reply data
                  \<and> read_page data entity_name
                      = Inr (int k, int (length [p1, p2]),
                             if k \<le> length [p1, p2] then [p1, p2] ! (k - 1) else [])"
  proof
    assume "k = 1"
    then show ?thesis using assms(1) [of n] by simp
  next
    assume "k = 2"
    then show ?thesis using assms(2) [of n] by simp
  qed
qed

lemma serves_two_pages:
  "serves two_pages \<lparr>req_url = ''https://docsapi.helpscout.net/v1/collections/c1/articles'',
                      req_headers = [(''Authorization'', ''Basic dG9rOng='')]\<rparr>
     ''https://docsapi.helpscout.net/v1/collections/c1/articles'' ''articles''
     [[JObj [(''id'', JStr ''a1'')], JObj [(''id'', JStr ''a2'')]],
      [JObj [(''id'', JStr ''a2'')], JObj [(''id'', JStr ''a3'')]]]"
proof (rule serves_two)
  fix n :: nat
  let ?r0 = "\<lparr>req_url = ''https://docsapi.helpscout.net/v1/collections/c1/articles'',
               req_headers = [(''Authorization'', ''Basic dG9rOng='')]\<rparr>"
  let ?url = "''https://docsapi.helpscout.net/v1/collections/c1/articles''"
  have "two_pages n (page_request ?r0 ?url 1)
        = Reply (JObj [(''articles'', JObj [(''page'', JInt 1), (''pages'', JInt 2),
            (''items'', JArr [JObj [(''id'', JStr ''a1'')], JObj [(''id'', JStr ''a2'')]])])])"
    by (simp add: two_pages_def page_request_def str_int_small page_reply_def)
  moreover have "read_page (JObj [(''articles'', JObj [(''page'', JInt 1), (''pages'', JInt 2),
            (''items'', JArr [JObj [(''id'', JStr ''a1'')], JObj [(''id'', JStr ''a2'')]])])]) ''articles''
        = Inr (1, 2, [JObj [(''id'', JStr ''a1'')], JObj [(''id'', JStr ''a2'')]])"
    by (rule read_page_listing, simp, simp_all)
  ultimately show "\<exists>data. two_pages n (page_request ?r0 ?url 1) = Reply data
        \<and> read_page data ''articles'' = Inr (1, 2, [JObj [(''id'', JStr ''a1'')], JObj [(''id'', JStr ''a2'')]])"
    by blast
  have "two_pages n (page_request ?r0 ?url 2)
        = Reply (JObj [(''articles'', JObj [(''count'', JInt 4),
            (''items'', JArr [JObj [(''id'', JStr ''a2'')], JObj [(''id'', JStr ''a3'')]]),
            (''pages'', JInt 2), (''page'', JInt 2)])])"
    by (simp add: two_pages_def page_request_def str_int_small)
  moreover have "read_page (JObj [(''articles'', JObj [(''count'', JInt 4),
            (''items'', JArr [JObj [(''id'', JStr ''a2'')], JObj [(''id'', JStr ''a3'')]]),
            (''pages'', JInt 2), (''page'', JInt 2)])]) ''articles''
        = Inr (2, 2, [JObj [(''id'', JStr ''a2'')], JObj [(''id'', JStr ''a3'')]])"
    by (rule read_page_listing, simp, simp_all)
  ultimately show "\<exists>data. two_pages n (page_request ?r0 ?url 2) = Reply data
        \<and> read_page data ''articles'' = Inr (2, 2, [JObj [(''id'', JStr ''a2'')], JObj [(''id'', JStr ''a3'')]])"
    by blast
qed

theorem get_paged_concatenates_pages_witness:
  "map_option fst (get_paged_help_scout_entities two_pages (Some ''tok'')
      ''https://docsapi.helpscout.net/v1/collections/c1/articles'' ''articles'' world0)
   = Some (Inr [JObj [(''id'', JStr ''a1'')], JObj [(''id'', JStr ''a2'')],
                JObj [(''id'', JStr ''a2'')], JObj [(''id'', JStr ''a3'')]])"
proof -
  have b: "build_request ''https://docsapi.helpscout.net/v1/collections/c1/articles'' (token_auth (Some ''tok''))
           = Inr \<lparr>req_url = ''https://docsapi.helpscout.net/v1/collections/c1/articles'',
                   req_headers = [(''Authorization'', ''Basic dG9rOng='')]\<rparr>"
    by (simp add: token_auth_def build_request_def encode_ascii_def code_point_def b64_char_def
          b64_alphabet_def)
  from get_paged_concatenates_pages [OF b serves_two_pages, of world0]
  show ?thesis by auto
qed

text \<open>
  Claim C2, as amended. When the first response reports a page number that is not below
  its page count (page 1 of 0 or of 1 pages), the fetcher returns that response's items,
  the empty sequence when they are empty, and makes no request after those of the
  first page.
\<close>

theorem get_paged_single_page:
  assumes get: "help_scout_get srv url [(''page'', JInt 1)] token
                  (logging INFO (''Getting page '' @ str_int 1) w) = (Inr data, w1)"
    and rp: "read_page data entity_name = Inr (current_page, total_pages, items)"
    and last: "total_pages \<le> current_page"
  shows "get_paged_help_scout_entities srv token url entity_name w
           = Some (Inr items, sleep REQUEST_DELAY w1)
       \<and> requests (trace (sleep REQUEST_DELAY w1)) = requests (trace w1)
       \<and> (items = [] \<longrightarrow> map_option fst (get_paged_help_scout_entities srv token url entity_name w)
                            = Some (Inr []))"
proof -
  define w0 where "w0 = logging INFO (''Getting page '' @ str_int 1) w"
  have "get_paged_loop srv token url entity_name None 1 [] w
        = get_paged_loop srv token url entity_name (Some (current_page, total_pages)) (current_page + 1)
            ([] @ items) (sleep REQUEST_DELAY w1)"
    by (subst get_paged_loop.simps, fold w0_def) (simp add: get [folded w0_def] rp)
  also have "\<dots> = Some (Inr ([] @ items), sleep REQUEST_DELAY w1)"
    using last by (intro paged_stop) simp
  finally have "get_paged_help_scout_entities srv token url entity_name w
                = Some (Inr items, sleep REQUEST_DELAY w1)"
    by (simp add: get_paged_help_scout_entities_def)
  then show ?thesis
    by (simp add: trace_sleep requests_append)
qed

theorem get_paged_single_page_witness:
  "map_option fst (get_paged_help_scout_entities no_pages None
      ''https://docsapi.helpscout.net/v1/collections'' ''collections'' world0) = Some (Inr [])
   \<and> map_option (\<lambda>r. map req_url (requests (trace (snd r))))
        (get_paged_help_scout_entities no_pages None
           ''https://docsapi.helpscout.net/v1/collections'' ''collections'' world0)
     = Some [''https://docsapi.helpscout.net/v1/collections?page=1'']"
proof -
  let ?url = "''https://docsapi.helpscout.net/v1/collections''"
  let ?data = "JObj [(''collections'', JObj [(''page'', JInt 1), (''pages'', JInt 0), (''items'', JArr [])])]"
  define w0 where "w0 = logging INFO (''Getting page '' @ str_int 1) world0"
  have tr0: "trace w0 = []" by (simp add: w0_def trace_logging world0_def)
  have b: "build_request ?url (token_auth None) = Inr \<lparr>req_url = ?url, req_headers = []\<rparr>"
    by (simp add: token_auth_def build_request_def)
  have r: "\<lparr>req_url = ?url, req_headers = []\<rparr>\<lparr>req_url := ?url @ query_suffix [(''page'', JInt 1)]\<rparr>
           = \<lparr>req_url = ''https://docsapi.helpscout.net/v1/collections?page=1'', req_headers = []\<rparr>"
    by (simp add: query_suffix_page str_int_small)
  have "no_pages (length (requests (trace w0)))
          (\<lparr>req_url = ?url, req_headers = []\<rparr>\<lparr>req_url := ?url @ query_suffix [(''page'', JInt 1)]\<rparr>)
        = Reply ?data"
    by (simp add: no_pages_def page_reply_def)
  from help_scout_get_first_reply [where srv = no_pages and w = w0, OF b this]
  have get: "help_scout_get no_pages ?url [(''page'', JInt 1)] None w0
        = (Inr ?data, emit (Requested \<lparr>req_url = ''https://docsapi.helpscout.net/v1/collections?page=1'',
                                        req_headers = []\<rparr>) w0)"
    by (simp only: r)
  have rp: "read_page ?data ''collections'' = Inr (1, 0, [])"
    by (rule read_page_reply)
  have le: "(0::int) \<le> 1" by simp
  from get_paged_single_page [OF get [unfolded w0_def] rp le, folded w0_def]
  show ?thesis
    by (simp add: trace_sleep trace_emit requests_append tr0)
qed

lemma serves_empty_first_page:
  "serves empty_first_page \<lparr>req_url = ''https://docsapi.helpscout.net/v1/collections/c1/articles'',
                              req_headers = []\<rparr>
     ''https://docsapi.helpscout.net/v1/collections/c1/articles'' ''articles''
     [[], [JObj [(''id'', JStr ''a1'')]]]"
  by (rule serves_two)
     (simp_all add: empty_first_page_def page_request_def str_int_small page_reply_def read_page_reply)

text \<open>
  Claim C2 as stated fails: the first page has no items but reports 2 pages; the fetcher
  requests page 2 and returns its item.
\<close>

theorem empty_first_page_counterexample:
  "empty_first_page 0 \<lparr>req_url = ''https://docsapi.helpscout.net/v1/collections/c1/articles?page=1'',
                        req_headers = []\<rparr>
     = Reply (JObj [(''articles'', JObj [(''page'', JInt 1), (''pages'', JInt 2), (''items'', JArr [])])])
   \<and> map_option fst (get_paged_help_scout_entities empty_first_page None
        ''https://docsapi.helpscout.net/v1/collections/c1/articles'' ''articles'' world0)
     = Some (Inr [JObj [(''id'', JStr ''a1'')]])
   \<and> map_option (\<lambda>r. map req_url (requests (trace (snd r))))
        (get_paged_help_scout_entities empty_first_page None
           ''https://docsapi.helpscout.net/v1/collections/c1/articles'' ''articles'' world0)
     = Some [''https://docsapi.helpscout.net/v1/collections/c1/articles?page=1'',
             ''https://docsapi.helpscout.net/v1/collections/c1/articles?page=2'']"
proof -
  let ?url = "''https://docsapi.helpscout.net/v1/collections/c1/articles''"
  have b: "build_request ?url (token_auth None) = Inr \<lparr>req_url = ?url, req_headers = []\<rparr>"
    by (simp add: token_auth_def build_request_def)
  from paged_all [OF b serves_empty_first_page, of world0] obtain w' where
    run: "get_paged_help_scout_entities empty_first_page None ?url ''articles'' world0
          = Some (Inr (concat [[], [JObj [(''id'', JStr ''a1'')]]]), w')"
    and rq: "new_requests world0 w'
             = map (\<lambda>k. page_request \<lparr>req_url = ?url, req_headers = []\<rparr> ?url (int k))
                 [1..<Suc (max 1 (length [[], [JObj [(''id'', JStr ''a1'')]]]))]"
    by blast
  have "requests (trace w') = new_requests world0 w'"
    by (simp add: new_requests_def world0_def)
  with rq have "map req_url (requests (trace w'))
      = [''https://docsapi.helpscout.net/v1/collections/c1/articles?page=1'',
         ''https://docsapi.helpscout.net/v1/collections/c1/articles?page=2'']"
    by (simp add: page_request_def str_int_small upt_conv_Cons del: upt_Suc)
  with run show ?thesis
    by (simp add: empty_first_page_def page_reply_def)
qed

section \<open>The output directory\<close>

lemma mkdir_existing:
  "path_exists (fs w) p \<Longrightarrow> mkdir p w = (Inl (FileExistsError p), w)"
  by (simp add: mkdir_def)

lemma fetch_articles_existing:
  assumes "path_exists (fs w) directory_path"
  shows "fst (fetch_articles srv article_ids directory_path token w) = Inl (SystemExit 1)
         \<and> trace (snd (fetch_articles srv article_ids directory_path token w)) = trace w
         \<and> fs (snd (fetch_articles srv article_ids directory_path token w)) = fs w"
proof -
  define w1 where "w1 = logging DEBUG (''Creating directory '' @ directory_path) w"
  have e: "path_exists (fs w1) directory_path"
    using assms by (simp add: w1_def fs_logging)
  have "fetch_articles srv article_ids directory_path token w
        = (Inl (SystemExit 1), logging ERROR (''Directory '' @ directory_path @ '' already exists'') w1)"
    unfolding fetch_articles_def Let_def
    by (fold w1_def) (simp add: mkdir_existing [OF e])
  then show ?thesis
    by (simp add: trace_logging fs_logging w1_def)
qed

lemma main_existing:
  assumes "arg_collection a = Some c" and "path_exists (fs w) (resolved_directory a now)"
  shows "\<exists>w'. main srv a env_token now w = Some (Inl (SystemExit 2), w')
             \<and> trace w' = trace w \<and> fs w' = fs w"
proof (cases "arg_output_dir a")
  case None
  define dn where "dn = ''help-scout-export-'' @ now"
  define w1 where "w1 = logging DEBUG (''No output directory specified, defaulting to '' @ dn) w"
  have e: "path_exists (fs w1) dn"
    using assms(2) None by (simp add: w1_def dn_def fs_logging resolved_directory_def)
  have "main srv a env_token now w = Some (Inl (SystemExit 2), w)
        \<or> main srv a env_token now w = Some (Inl (SystemExit 2), w1)"
    unfolding main_def Let_def
    by (fold dn_def, fold w1_def) (simp add: assms(1) None e)
  moreover have "trace w1 = trace w" "fs w1 = fs w"
    by (simp_all add: w1_def trace_logging fs_logging)
  ultimately show ?thesis by auto
next
  case (Some d)
  with assms have "main srv a env_token now w = Some (Inl (SystemExit 2), w)"
    by (simp add: main_def Let_def resolved_directory_def)
  then show ?thesis by simp
qed

text \<open>
  Claim C6. When a collection is given and the resolved output directory exists, \<^verbatim>\<open>main\<close>
  ends with status 2 and leaves the trace (no request, no sleep, no directory made, no
  file written) and the file system as they were. \<^verbatim>\<open>fetch_articles\<close> called on an existing
  directory leaves with \<^verbatim>\<open>exit(1)\<close>, again with the trace and the file system unchanged.
\<close>

theorem existing_output_directory_refused:
  "(arg_collection a = Some c \<and> path_exists (fs w) (resolved_directory a now)
      \<longrightarrow> (\<exists>r w'. main srv a env_token now w = Some (r, w') \<and> exit_status r = 2
                 \<and> trace w' = trace w \<and> fs w' = fs w))
   \<and> (path_exists (fs w) directory_path
      \<longrightarrow> fst (fetch_articles srv article_ids directory_path token w) = Inl (SystemExit 1)
          \<and> trace (snd (fetch_articles srv article_ids directory_path token w)) = trace w
          \<and> fs (snd (fetch_articles srv article_ids directory_path token w)) = fs w)"
proof (intro conjI impI)
  assume "arg_collection a = Some c \<and> path_exists (fs w) (resolved_directory a now)"
  then obtain w' where "main srv a env_token now w = Some (Inl (SystemExit 2), w')"
    "trace w' = trace w" "fs w' = fs w"
    using main_existing [of a c w now srv env_token] by blast
  then show "\<exists>r w'. main srv a env_token now w = Some (r, w') \<and> exit_status r = 2
                 \<and> trace w' = trace w \<and> fs w' = fs w"
    by (simp add: exit_status_def)
next
  assume e: "path_exists (fs w) directory_path"
  from fetch_articles_existing [OF e, of srv article_ids token]
  show "fst (fetch_articles srv article_ids directory_path token w) = Inl (SystemExit 1)"
    and "trace (snd (fetch_articles srv article_ids directory_path token w)) = trace w"
    and "fs (snd (fetch_articles srv article_ids directory_path token w)) = fs w"
    by (simp_all add: exit_status_def)
qed

theorem existing_output_directory_refused_witness:
  "main down \<lparr>arg_token = Some ''tok'', arg_collection = Some ''c1'', arg_output_dir = Some ''out''\<rparr>
     None ''2024-01-02T03:04:05'' occupied = Some (Inl (SystemExit 2), occupied)
   \<and> fetch_articles down [JStr ''a1''] ''out'' (Some ''tok'') occupied
     = (Inl (SystemExit 1),
        occupied\<lparr>logged := [(DEBUG, ''Creating directory out''), (ERROR, ''Directory out already exists'')]\<rparr>)"
proof -
  let ?a = "\<lparr>arg_token = Some ''tok'', arg_collection = Some ''c1'', arg_output_dir = Some ''out''\<rparr>"
  have e: "path_exists (fs occupied) (resolved_directory ?a ''2024-01-02T03:04:05'')"
    "path_exists (fs occupied) ''out''"
    by (simp_all add: occupied_def resolved_directory_def path_exists_def)
  from existing_output_directory_refused [of ?a "''c1''" occupied "''2024-01-02T03:04:05''" down None
         "''out''" "[JStr ''a1'']" "Some ''tok''"] e
  have "\<exists>r w'. main down ?a None ''2024-01-02T03:04:05'' occupied = Some (r, w') \<and> exit_status r = 2"
    by auto
  moreover have "main down ?a None ''2024-01-02T03:04:05'' occupied = Some (Inl (SystemExit 2), occupied)"
    by (simp add: main_def Let_def occupied_def path_exists_def)
  moreover have "fetch_articles down [JStr ''a1''] ''out'' (Some ''tok'') occupied
     = (Inl (SystemExit 1),
        occupied\<lparr>logged := [(DEBUG, ''Creating directory out''), (ERROR, ''Directory out already exists'')]\<rparr>)"
    by (simp add: fetch_articles_def Let_def mkdir_def logging_def occupied_def path_exists_def)
  ultimately show ?thesis by simp
qed

section \<open>The exported files\<close>



















lemmas run_defs =
  fetch_articles_def Let_def mkdir_def path_exists_def logging_def emit_def sleep_def write_file_def
  help_scout_get_def safe_get_def py_range_def upt_conv_Cons build_request_def encode_ascii_def
  code_point_def urlopen_def py_getitem_def py_str_def unique_filename_def unique_filename_loop.simps
  joinpath_def str_nat.simps digit_char_def world0_def REQUEST_DELAY_def



lemma str_nat_zero: "str_nat 0 = ''0''"
  by (simp add: str_nat.simps digit_char_def)

lemma fetch_articles_result:
  "fst (fetch_articles srv ids d token w) = Inr xs \<Longrightarrow> xs = []"
  by (auto simp: fetch_articles_def Let_def split: prod.splits sum.splits exc.splits)

text \<open>
  Claim C9. Whenever \<^verbatim>\<open>fetch_articles\<close> returns, it returns the empty list, and whenever
  \<^verbatim>\<open>export_help_scout_docs\<close> returns, its last log message is
  \<^verbatim>\<open>Saved all 0 articles into <directory>\<close>, whatever was written.
\<close>

theorem fetch_articles_returns_nothing:
  "(fst (fetch_articles srv ids d token w) = Inr xs \<longrightarrow> xs = [])
   \<and> (export_help_scout_docs srv token collection_id d w = Some (Inr (), w')
        \<longrightarrow> last (logged w') = (INFO, ''Saved all 0 articles into '' @ d))"
proof (intro conjI impI)
  assume r: "fst (fetch_articles srv ids d token w) = Inr xs"
  then show "xs = []" by (rule fetch_articles_result)
next
  assume e: "export_help_scout_docs srv token collection_id d w = Some (Inr (), w')"
  define w0 where "w0 = logging INFO ''Starting Help Scout Docs export'' w"
  from e obtain article_ids w1 where
    ids: "get_article_ids srv token collection_id w0 = Some (Inr article_ids, w1)"
    unfolding export_help_scout_docs_def
    by (fold w0_def) (auto split: option.splits prod.splits sum.splits)
  define w1' where "w1' = logging INFO (''Found '' @ str_nat (length article_ids) @ '' article IDs'') w1"
  from e ids obtain articles w2 where
    fa: "fetch_articles srv article_ids d token w1' = (Inr articles, w2)"
    and w': "w' = logging INFO (''Saved all '' @ str_nat (length articles) @ '' articles into '' @ d) w2"
    unfolding export_help_scout_docs_def
    by (fold w0_def) (auto simp: w1'_def split: prod.splits sum.splits)
  from fa have "articles = []"
    using fetch_articles_result [of srv article_ids d token w1' articles] by simp
  with w' show "last (logged w') = (INFO, ''Saved all 0 articles into '' @ d)"
    by (simp add: logging_def str_nat_zero)
qed

lemma export_run:
  "map_option (\<lambda>r. (fst r, map fst (writes (trace (snd r))), fs (snd r)))
     (export_help_scout_docs docs_site None ''c1'' ''out'' world0)
   = Some (Inr (), [''out/intro.json'', ''out/intro-1.json''],
           [(''out/intro-1.json'', File (json_dumps 2 0 (envelope ''a2''))),
            (''out/intro.json'', File (json_dumps 2 0 (envelope ''a1''))),
            (''out'', Dir)])"
  by (simp add: export_help_scout_docs_def get_article_ids_def get_paged_help_scout_entities_def
        get_paged_loop.simps read_page_def py_int_def py_iter_def page_reply_def
        urlencode_def quote_plus_def always_safe_def str_int_def
        run_defs docs_site_def envelope_def)

theorem fetch_articles_returns_nothing_witness:
  "map_option (\<lambda>r. (fst r, map fst (writes (trace (snd r))), last (logged (snd r))))
     (export_help_scout_docs docs_site None ''c1'' ''out'' world0)
   = Some (Inr (), [''out/intro.json'', ''out/intro-1.json''], (INFO, ''Saved all 0 articles into out''))"
proof -
  from export_run obtain w' where
    run: "export_help_scout_docs docs_site None ''c1'' ''out'' world0 = Some (Inr (), w')"
    and wr: "map fst (writes (trace w')) = [''out/intro.json'', ''out/intro-1.json'']"
    by (cases "export_help_scout_docs docs_site None ''c1'' ''out'' world0") auto
  from fetch_articles_returns_nothing [of docs_site "[]" "''out''" None world0 "[]" "''c1''" w'] run
  have "last (logged w') = (INFO, ''Saved all 0 articles into '' @ ''out'')" by blast
  with run wr show ?thesis by simp
qed

end
